theory Spec2Isabelle
  imports Complex_Main
begin

section \<open>The notebook variables data source\<close>

text \<open>
  A shallow embedding of \<^verbatim>\<open>NotebookVariableDataSource\<close>
  (\<^verbatim>\<open>notebookVariablesDataSource.ts\<close>). JavaScript numbers are modelled as
  unbounded integers (counts, offsets and provider handles are integers in every use the
  source makes of them). Asynchronous code is modelled by explicit state passing: each
  operation takes the state of the world and returns its result with the new state. The
  state holds the field \<^verbatim>\<open>cancellationTokenSource\<close>, the store of token sources
  allocated so far, and the trace of the interactions with the variable provider.
\<close>

subsection \<open>Data model\<close>

record NotebookTextModel =
  uri :: string

text \<open>
  \<^verbatim>\<open>INotebookVariableElement\<close>. The fields \<^verbatim>\<open>id\<close>, \<^verbatim>\<open>value\<close> and
  \<^verbatim>\<open>type\<close> are suffixed, as these names are taken in Isabelle/HOL. Optional fields
  are options. The discriminant \<^verbatim>\<open>kind\<close> is the constructor of \<open>element\<close> below.
\<close>

record INotebookVariableElement =
  id_str :: string
  extHostId :: int
  name :: string
  value_str :: string
  type_str :: "string option"
  indexedChildrenCount :: int
  indexStart :: "int option"
  hasNamedChildren :: bool
  notebook :: NotebookTextModel

text \<open>The union \<^verbatim>\<open>INotebookScope | INotebookVariableElement\<close>, tagged by \<^verbatim>\<open>kind\<close>:
  \<^verbatim>\<open>'root'\<close> is \<open>Scope\<close>, \<^verbatim>\<open>'variable'\<close> is \<open>Variable\<close>.\<close>

datatype element = Scope NotebookTextModel | Variable INotebookVariableElement

text \<open>
  Modelled from the spec: the interface \<^verbatim>\<open>VariablesResult\<close> is declared in
  \<^verbatim>\<open>notebookKernelService.ts\<close>, which is not among the sources. The spec (section 6)
  gives its fields: handle, name, value, optional type, indexedChildrenCount and
  hasNamedChildren. It has no start offset.
\<close>

record VariablesResult =
  vr_id :: int
  vr_name :: string
  vr_value :: string
  vr_type :: "string option"
  vr_hasNamedChildren :: bool
  vr_indexedChildrenCount :: int

datatype VariablesRequestKind = named | indexed

text \<open>
  Modelled from the spec: \<^verbatim>\<open>CancellationTokenSource\<close> is declared in
  \<^verbatim>\<open>vs/base/common/cancellation\<close>, which is not among the sources. The spec (section
  4.2) gives a handle two states, live and revoked, with the single transition live to
  revoked by \<^verbatim>\<open>cancel()\<close>; \<^verbatim>\<open>dispose()\<close> releases its resources. A new token source
  is live. Token sources are objects: the store below maps references to them.
\<close>

record CancellationTokenSource =
  cancelled :: bool
  disposed :: bool

definition new_CancellationTokenSource :: CancellationTokenSource where
  "new_CancellationTokenSource = \<lparr>cancelled = False, disposed = False\<rparr>"

definition cancel_source :: "CancellationTokenSource \<Rightarrow> CancellationTokenSource" where
  "cancel_source c = c\<lparr>cancelled := True\<rparr>"

definition dispose_source :: "CancellationTokenSource \<Rightarrow> CancellationTokenSource" where
  "dispose_source c = c\<lparr>disposed := True\<rparr>"

text \<open>The token handed to a provider query: the reference of the token source it belongs
  to, and whether cancellation is requested when the query is issued.\<close>

record CancellationToken =
  source_ref :: nat
  isCancellationRequested :: bool

datatype error = Canceled | ProviderFailure

text \<open>
  Modelled from the spec: \<^verbatim>\<open>AsyncIterableObject\<close> is declared in
  \<^verbatim>\<open>vs/base/common/async\<close>, which is not among the sources. The spec describes a
  lazily produced, finite sequence consumed at most once, with the single operation
  "fetch the next element or the end". A pull yields an element and the rest (\<open>Emit\<close>),
  the end (\<open>Done\<close>) or a failure (\<open>Reject\<close>).
\<close>

datatype 'a AsyncIterableObject =
  Done
  | Emit 'a "'a AsyncIterableObject"
  | Reject error

text \<open>\<^verbatim>\<open>INotebookKernel\<close>, as far as the data source uses it.\<close>

record INotebookKernel =
  hasVariableProvider :: bool
  provideVariables :: "string \<Rightarrow> int option \<Rightarrow> VariablesRequestKind \<Rightarrow> int
     \<Rightarrow> CancellationToken \<Rightarrow> VariablesResult AsyncIterableObject"

text \<open>\<^verbatim>\<open>notebookKernelService.getMatchingKernel(notebook).selected\<close>: the selected
  kernel of a notebook, if any.\<close>

type_synonym INotebookKernelService = "NotebookTextModel \<Rightarrow> INotebookKernel option"

text \<open>What the data source does to the provider: it issues a query, or it pulls the next
  element of the sequence of the query issued last.\<close>

datatype event =
  ProvideVariables string "int option" VariablesRequestKind int CancellationToken
  | Next

record world =
  cancellationTokenSource :: nat
  store :: "CancellationTokenSource list"
  trace :: "event list"

subsection \<open>Numbers in template strings\<close>

text \<open>The decimal numeral of an integer, as a template literal renders it.\<close>

fun natToString :: "nat \<Rightarrow> string" where
  "natToString n =
     (if n < 10 then [''0123456789'' ! n]
      else natToString (n div 10) @ [''0123456789'' ! (n mod 10)])"

declare natToString.simps [simp del]

definition numberToString :: "int \<Rightarrow> string" where
  "numberToString i = (if i < 0 then CHR ''-'' # natToString (nat (- i)) else natToString (nat i))"

subsection \<open>Constructor, hasChildren, cancel\<close>

definition constructor :: world where
  "constructor = \<lparr>cancellationTokenSource = 0, store = [new_CancellationTokenSource], trace = []\<rparr>"

definition hasChildren :: "element \<Rightarrow> bool" where
  "hasChildren el =
     (case el of
        Scope _ \<Rightarrow> True
      | Variable e \<Rightarrow> hasNamedChildren e \<or> indexedChildrenCount e > 0)"

definition cancel :: "world \<Rightarrow> world" where
  "cancel w =
     (let r = cancellationTokenSource w;
          s1 = (store w)[r := cancel_source (store w ! r)];
          s2 = s1[r := dispose_source (s1 ! r)]
      in w\<lparr>store := s2 @ [new_CancellationTokenSource], cancellationTokenSource := length s2\<rparr>)"

text \<open>\<^verbatim>\<open>this.cancellationTokenSource.token\<close>, read in state \<open>w\<close>. The field refers to
  an allocated token source after the constructor and after every \<open>cancel\<close>; the
  properties that read the store through an older reference assume it allocated.\<close>

definition token :: "world \<Rightarrow> CancellationToken" where
  "token w = \<lparr>source_ref = cancellationTokenSource w,
              isCancellationRequested = cancelled (store w ! cancellationTokenSource w)\<rparr>"

subsection \<open>Wrapping provider results\<close>

definition createVariableElement :: "VariablesResult \<Rightarrow> NotebookTextModel \<Rightarrow> INotebookVariableElement" where
  "createVariableElement variable nb =
     \<lparr>id_str = numberToString (vr_id variable),
      extHostId = vr_id variable,
      name = vr_name variable,
      value_str = vr_value variable,
      type_str = vr_type variable,
      indexedChildrenCount = vr_indexedChildrenCount variable,
      indexStart = None,
      hasNamedChildren = vr_hasNamedChildren variable,
      notebook = nb\<rparr>"

text \<open>
  Modelled from the spec: \<^verbatim>\<open>variables.map(f).toPromise()\<close> of \<^verbatim>\<open>AsyncIterableObject\<close>
  pulls the whole sequence, wraps every element and fails when a pull fails. The second
  component is the trace, one \<open>Next\<close> longer for each pull.
\<close>

fun mapToPromise :: "('a \<Rightarrow> 'b) \<Rightarrow> 'a AsyncIterableObject \<Rightarrow> 'b list \<Rightarrow> event list
    \<Rightarrow> (error + 'b list) \<times> event list" where
  "mapToPromise f Done acc tr = (Inr acc, tr @ [Next])"
| "mapToPromise f (Reject e) acc tr = (Inl e, tr @ [Next])"
| "mapToPromise f (Emit v rest) acc tr = mapToPromise f rest (acc @ [f v]) (tr @ [Next])"

subsection \<open>Indexed children\<close>

text \<open>The object literal pushed by the loop of \<^verbatim>\<open>getIndexedChildren\<close> at offset \<open>start\<close>,
  with the page size \<open>P\<close>.\<close>

definition rangeElement :: "int \<Rightarrow> INotebookVariableElement \<Rightarrow> int \<Rightarrow> INotebookVariableElement" where
  "rangeElement P parent start =
     (let end0 = start + P;
          end = (if end0 > indexedChildrenCount parent then indexedChildrenCount parent else end0)
      in \<lparr>id_str = id_str parent @ numberToString start,
          extHostId = extHostId parent,
          name = ''['' @ numberToString start @ ''..'' @ numberToString (end - 1) @ '']'',
          value_str = '''',
          type_str = None,
          indexedChildrenCount = end - start,
          indexStart = Some start,
          hasNamedChildren = False,
          notebook = notebook parent\<rparr>)"

text \<open>
  The loop \<^verbatim>\<open>for (let start = 0; start < parent.indexedChildrenCount; start += variablePageSize)\<close>.
  The constant \<^verbatim>\<open>variablePageSize\<close> is imported from \<^verbatim>\<open>notebookKernelService.ts\<close>,
  which is not among the sources: it is the parameter \<open>P\<close>. For a page size that is not
  positive the loop need not end, so the result is an option, \<open>None\<close> when it runs forever.
\<close>

partial_function (option) rangeLoop ::
  "int \<Rightarrow> INotebookVariableElement \<Rightarrow> int \<Rightarrow> INotebookVariableElement list
     \<Rightarrow> INotebookVariableElement list option" where
  "rangeLoop P parent start childNodes =
     (if start < indexedChildrenCount parent
      then rangeLoop P parent (start + P) (childNodes @ [rangeElement P parent start])
      else Some childNodes)"

declare rangeLoop.simps [code]

text \<open>The loop \<^verbatim>\<open>for await (const variable of variables)\<close> with its \<^verbatim>\<open>break\<close>.\<close>

fun forAwait :: "int \<Rightarrow> NotebookTextModel \<Rightarrow> VariablesResult AsyncIterableObject
    \<Rightarrow> INotebookVariableElement list \<Rightarrow> event list
    \<Rightarrow> (error + INotebookVariableElement list) \<times> event list" where
  "forAwait P nb Done childNodes tr = (Inr childNodes, tr @ [Next])"
| "forAwait P nb (Reject e) childNodes tr = (Inl e, tr @ [Next])"
| "forAwait P nb (Emit variable rest) childNodes tr =
     (let childNodes' = childNodes @ [createVariableElement variable nb]
      in if int (length childNodes') \<ge> P then (Inr childNodes', tr @ [Next])
         else forAwait P nb rest childNodes' (tr @ [Next]))"

type_synonym 'a fetch = "((error + 'a) \<times> world) option"

definition getIndexedChildren :: "int \<Rightarrow> INotebookVariableElement \<Rightarrow> INotebookKernel \<Rightarrow> world
    \<Rightarrow> INotebookVariableElement list fetch" where
  "getIndexedChildren P parent kernel' w =
     (if indexedChildrenCount parent > P then
        (case rangeLoop P parent 0 [] of
           None \<Rightarrow> None
         | Some childNodes \<Rightarrow> Some (Inr childNodes, w))
      else if indexedChildrenCount parent > 0 then
        (let start = (case indexStart parent of None \<Rightarrow> 0 | Some i \<Rightarrow> i);
             variables = provideVariables kernel' (uri (notebook parent)) (Some (extHostId parent))
                           indexed start (token w);
             tr = trace w @ [ProvideVariables (uri (notebook parent)) (Some (extHostId parent))
                           indexed start (token w)];
             (r, tr') = forAwait P (notebook parent) variables [] tr
         in Some (r, w\<lparr>trace := tr'\<rparr>))
      else Some (Inr [], w))"

subsection \<open>Named children and getChildren\<close>

text \<open>The first \<^verbatim>\<open>if\<close> of \<^verbatim>\<open>getVariables\<close>: the query for the named children. The
  function suspends here until the provider has delivered them.\<close>

definition getNamedChildren :: "INotebookVariableElement \<Rightarrow> INotebookKernel \<Rightarrow> world
    \<Rightarrow> (error + INotebookVariableElement list) \<times> world" where
  "getNamedChildren parent selectedKernel w =
     (if hasNamedChildren parent then
        (let variables = provideVariables selectedKernel (uri (notebook parent))
                           (Some (extHostId parent)) named 0 (token w);
             tr = trace w @ [ProvideVariables (uri (notebook parent)) (Some (extHostId parent))
                           named 0 (token w)];
             (r, tr') = mapToPromise (\<lambda>variable. createVariableElement variable (notebook parent))
                           variables [] tr
         in (r, w\<lparr>trace := tr'\<rparr>))
      else (Inr [], w))"

text \<open>The second \<^verbatim>\<open>if\<close> of \<^verbatim>\<open>getVariables\<close>, run with the children collected so far.\<close>

definition appendIndexedChildren :: "int \<Rightarrow> INotebookVariableElement \<Rightarrow> INotebookKernel
    \<Rightarrow> INotebookVariableElement list \<Rightarrow> world \<Rightarrow> INotebookVariableElement list fetch" where
  "appendIndexedChildren P parent selectedKernel children w =
     (if indexedChildrenCount parent > 0 then
        (case getIndexedChildren P parent selectedKernel w of
           None \<Rightarrow> None
         | Some (Inl e, w') \<Rightarrow> Some (Inl e, w')
         | Some (Inr childNodes, w') \<Rightarrow> Some (Inr (children @ childNodes), w'))
      else Some (Inr children, w))"

definition getVariables :: "INotebookKernelService \<Rightarrow> int \<Rightarrow> INotebookVariableElement \<Rightarrow> world
    \<Rightarrow> INotebookVariableElement list fetch" where
  "getVariables svc P parent w =
     (case svc (notebook parent) of
        None \<Rightarrow> Some (Inr [], w)
      | Some selectedKernel \<Rightarrow>
          if hasVariableProvider selectedKernel then
            (case getNamedChildren parent selectedKernel w of
               (Inl e, w') \<Rightarrow> Some (Inl e, w')
             | (Inr children, w') \<Rightarrow> appendIndexedChildren P parent selectedKernel children w')
          else Some (Inr [], w))"

definition getRootVariables :: "INotebookKernelService \<Rightarrow> NotebookTextModel \<Rightarrow> world
    \<Rightarrow> INotebookVariableElement list fetch" where
  "getRootVariables svc nb w =
     (case svc nb of
        None \<Rightarrow> Some (Inr [], w)
      | Some selectedKernel \<Rightarrow>
          if hasVariableProvider selectedKernel then
            (let variables = provideVariables selectedKernel (uri nb) None named 0 (token w);
                 tr = trace w @ [ProvideVariables (uri nb) None named 0 (token w)];
                 (r, tr') = mapToPromise (\<lambda>variable. createVariableElement variable nb)
                              variables [] tr
             in Some (r, w\<lparr>trace := tr'\<rparr>))
          else Some (Inr [], w))"

definition getChildren :: "INotebookKernelService \<Rightarrow> int \<Rightarrow> element \<Rightarrow> world
    \<Rightarrow> INotebookVariableElement list fetch" where
  "getChildren svc P el w =
     (case el of
        Scope nb \<Rightarrow> getRootVariables svc nb w
      | Variable e \<Rightarrow> getVariables svc P e w)"

text \<open>The field \<^verbatim>\<open>notebook\<close>, which both kinds of element have.\<close>

definition notebookOf :: "element \<Rightarrow> NotebookTextModel" where
  "notebookOf el = (case el of Scope nb \<Rightarrow> nb | Variable e \<Rightarrow> notebook e)"

subsection \<open>Reading a provider sequence\<close>

text \<open>The elements a sequence emits before it ends or fails, and the failure it ends with,
  if it fails.\<close>

fun emitted :: "'a AsyncIterableObject \<Rightarrow> 'a list" where
  "emitted Done = []"
| "emitted (Reject e) = []"
| "emitted (Emit v rest) = v # emitted rest"

fun rejection :: "'a AsyncIterableObject \<Rightarrow> error option" where
  "rejection Done = None"
| "rejection (Reject e) = Some e"
| "rejection (Emit v rest) = rejection rest"

text \<open>An event carries a token when it is a pull, or a query handed that token.\<close>

fun carries :: "CancellationToken \<Rightarrow> event \<Rightarrow> bool" where
  "carries tk Next = True"
| "carries tk (ProvideVariables u h kd st t) = (t = tk)"

subsection \<open>A provider for examples\<close>

fun fromList :: "'a list \<Rightarrow> 'a AsyncIterableObject" where
  "fromList [] = Done"
| "fromList (v # vs) = Emit v (fromList vs)"

text \<open>A kernel that answers a named query with \<open>ns\<close> and an indexed query at offset
  \<open>st\<close> with the elements of \<open>is\<close> from \<open>st\<close> on, and that gives up when the token it
  is handed is revoked.\<close>

definition listKernel :: "VariablesResult list \<Rightarrow> VariablesResult list \<Rightarrow> INotebookKernel" where
  "listKernel ns is =
     \<lparr>hasVariableProvider = True,
      provideVariables = (\<lambda>u h kd st tk.
         if isCancellationRequested tk then Reject Canceled
         else fromList (case kd of named \<Rightarrow> ns | indexed \<Rightarrow> drop (nat st) is))\<rparr>"

definition exampleNotebook :: NotebookTextModel where
  "exampleNotebook = \<lparr>uri = ''notebook''\<rparr>"

definition exampleResult :: "int \<Rightarrow> bool \<Rightarrow> int \<Rightarrow> VariablesResult" where
  "exampleResult h nc ic =
     \<lparr>vr_id = h, vr_name = ''v'', vr_value = ''0'', vr_type = None,
      vr_hasNamedChildren = nc, vr_indexedChildrenCount = ic\<rparr>"

definition exampleArr :: INotebookVariableElement where
  "exampleArr = createVariableElement (exampleResult 8 False 250) exampleNotebook"

definition exampleService :: "VariablesResult list \<Rightarrow> VariablesResult list \<Rightarrow> INotebookKernelService" where
  "exampleService ns is = (\<lambda>nb. Some (listKernel ns is))"

definition exampleNode :: INotebookVariableElement where
  "exampleNode = createVariableElement (exampleResult 8 True 1) exampleNotebook"

definition exampleBoth :: INotebookVariableElement where
  "exampleBoth = createVariableElement (exampleResult 8 True 250) exampleNotebook"

section \<open>Properties\<close>

subsection \<open>The two loops over a provider sequence\<close>

lemma mapToPromise_closed:
  "mapToPromise f vs acc tr =
     ((case rejection vs of None \<Rightarrow> Inr (acc @ map f (emitted vs)) | Some e \<Rightarrow> Inl e),
      tr @ replicate (Suc (length (emitted vs))) Next)"
  by (induction vs arbitrary: acc tr)
     (simp_all add: replicate_append_same split: option.splits)

lemma forAwait_closed:
  "int (length acc) < P \<Longrightarrow>
   forAwait P nb vs acc tr =
     (if nat P - length acc \<le> length (emitted vs)
      then (Inr (acc @ map (\<lambda>v. createVariableElement v nb) (take (nat P - length acc) (emitted vs))),
            tr @ replicate (nat P - length acc) Next)
      else ((case rejection vs of
               None \<Rightarrow> Inr (acc @ map (\<lambda>v. createVariableElement v nb) (emitted vs))
             | Some e \<Rightarrow> Inl e),
            tr @ replicate (Suc (length (emitted vs))) Next))"
proof (induction vs arbitrary: acc tr)
  case Done
  then show ?case by simp
next
  case (Reject e)
  then show ?case by simp
next
  case (Emit v rest)
  show ?case
  proof (cases "P \<le> int (length acc) + 1")
    case True
    with Emit.prems have "nat P - length acc = 1" by linarith
    with True show ?thesis by (simp add: Let_def)
  next
    case False
    let ?acc' = "acc @ [createVariableElement v nb]"
    from False have lt: "int (length ?acc') < P" by simp
    from False Emit.prems have m: "nat P - length acc = Suc (nat P - length ?acc')"
      by simp
    have step: "forAwait P nb (Emit v rest) acc tr = forAwait P nb rest ?acc' (tr @ [Next])"
      using False by (simp add: Let_def)
    show ?thesis
      unfolding step Emit.IH [OF lt] m
      by (simp add: replicate_append_same split: option.splits)
  qed
qed

subsection \<open>Blocks of a page size\<close>

text \<open>Integer arithmetic of the number of blocks, \<open>(C + P - 1) div P\<close>, that is
  the ceiling of \<open>C / P\<close>.\<close>

lemma blocks_upper: "0 < P \<Longrightarrow> (C::int) \<le> ((C + P - 1) div P) * P"
proof -
  assume P: "0 < P"
  have "C + P - 1 = ((C + P - 1) div P) * P + (C + P - 1) mod P" by simp
  moreover have "(C + P - 1) mod P < P" using P by simp
  ultimately show ?thesis by linarith
qed

lemma blocks_lower: "0 < P \<Longrightarrow> ((C + P - 1) div P - 1) * P < (C::int)"
proof -
  assume P: "0 < P"
  have "C + P - 1 = ((C + P - 1) div P) * P + (C + P - 1) mod P" by simp
  moreover have "0 \<le> (C + P - 1) mod P" using P by simp
  moreover have "((C + P - 1) div P - 1) * P = ((C + P - 1) div P) * P - P"
    by (simp add: algebra_simps)
  ultimately show ?thesis by linarith
qed

lemma blocks_unique:
  assumes P: "0 < P" and lo: "(N - 1) * P < (C::int)" and hi: "C \<le> N * P"
  shows "(C + P - 1) div P = N"
proof -
  have "C + P - 1 = P * N + (C + P - 1 - N * P)" by (simp add: algebra_simps)
  moreover have "0 \<le> C + P - 1 - N * P" using lo by (simp add: algebra_simps)
  moreover have "C + P - 1 - N * P < P" using hi by simp
  ultimately show ?thesis by (rule int_div_pos_eq)
qed

lemma blocks_ceiling:
  assumes P: "0 < P"
  shows "\<lceil>real_of_int C / real_of_int P\<rceil> = (C + P - 1) div P"
proof (rule ceiling_unique)
  let ?N = "(C + P - 1) div P"
  have "real_of_int ((?N - 1) * P) < real_of_int C"
    using blocks_lower [OF P, of C] by (simp only: of_int_less_iff)
  then show "real_of_int ?N - 1 < real_of_int C / real_of_int P"
    using P by (simp add: pos_less_divide_eq)
  have "real_of_int C \<le> real_of_int (?N * P)"
    using blocks_upper [OF P, of C] by (simp only: of_int_le_iff)
  then show "real_of_int C / real_of_int P \<le> real_of_int ?N"
    using P by (simp add: pos_divide_le_eq)
qed

lemma blocks_last:
  assumes P: "0 < P"
  shows "(C::int) - ((C + P - 1) div P - 1) * P = (if P dvd C then P else C mod P)"
proof (cases "P dvd C")
  case True
  then obtain q where q: "C = P * q" by (auto simp: dvd_def)
  have "(C + P - 1) div P = q"
    by (rule blocks_unique [OF P]) (use P q in \<open>simp_all add: algebra_simps\<close>)
  with q True show ?thesis by (simp add: algebra_simps)
next
  case False
  then have m: "0 < C mod P" using P
    by (metis dvd_eq_mod_eq_0 less_le pos_mod_sign)
  have b: "C mod P < P" using P by simp
  have e: "C = (C div P) * P + C mod P" by simp
  have "C div P * P < C" using m e by linarith
  then have lo: "(C div P + 1 - 1) * P < C" by simp
  have hi: "C \<le> (C div P + 1) * P"
  proof -
    have "(C div P + 1) * P = (C div P) * P + P" by (simp add: algebra_simps)
    with b e show ?thesis by linarith
  qed
  have "(C + P - 1) div P = C div P + 1"
    by (rule blocks_unique [OF P lo hi])
  then have "C - ((C + P - 1) div P - 1) * P = C - (C div P) * P" by simp
  also have "\<dots> = C mod P" using e by linarith
  finally show ?thesis using False by simp
qed

lemma blocks_zero: "0 < P \<Longrightarrow> nat ((C - start + P - 1) div P) = 0 \<Longrightarrow> \<not> start < (C::int)"
proof
  assume P: "0 < P" and z: "nat ((C - start + P - 1) div P) = 0" and lt: "start < C"
  from lt have "P \<le> C - start + P - 1" by simp
  with P have "0 < (C - start + P - 1) div P"
    by (simp add: pos_imp_zdiv_pos_iff)
  with z show False by simp
qed

lemma blocks_Suc:
  assumes P: "0 < P" and n: "nat ((C - start + P - 1) div P) = Suc n"
  shows "start < (C::int)" and "nat ((C - (start + P) + P - 1) div P) = n"
proof -
  from n have pos: "0 < (C - start + P - 1) div P" by linarith
  with P have "P \<le> C - start + P - 1"
    by (simp add: pos_imp_zdiv_pos_iff)
  then show "start < C" by simp
  have "C - start + P - 1 = (C - (start + P) + P - 1) + 1 * P" by simp
  then have "(C - start + P - 1) div P = (C - (start + P) + P - 1) div P + 1"
    using P by (metis div_mult_self1 less_irrefl add.commute)
  with n show "nat ((C - (start + P) + P - 1) div P) = n" by linarith
qed

lemma rangeLoop_closed:
  "0 < P \<Longrightarrow> rangeLoop P parent start acc =
     Some (acc @ map (\<lambda>k. rangeElement P parent (start + int k * P))
                   [0..<nat ((indexedChildrenCount parent - start + P - 1) div P)])"
proof (induction "nat ((indexedChildrenCount parent - start + P - 1) div P)" arbitrary: start acc)
  case 0
  then have "\<not> start < indexedChildrenCount parent"
    using blocks_zero [of P "indexedChildrenCount parent" start] by simp
  with 0 show ?case
    by (subst rangeLoop.simps) simp
next
  case (Suc n)
  have lt: "start < indexedChildrenCount parent"
    and n: "nat ((indexedChildrenCount parent - (start + P) + P - 1) div P) = n"
    using blocks_Suc [OF Suc.prems Suc.hyps(2) [symmetric]] by simp_all
  have shift: "map (\<lambda>k. rangeElement P parent (start + int k * P)) [0..<Suc n] =
      rangeElement P parent start # map (\<lambda>k. rangeElement P parent (start + P + int k * P)) [0..<n]"
    by (simp add: map_upt_Suc algebra_simps del: upt_Suc)
  have "rangeLoop P parent start acc =
      rangeLoop P parent (start + P) (acc @ [rangeElement P parent start])"
    using lt by (subst rangeLoop.simps) simp
  also have "\<dots> = Some ((acc @ [rangeElement P parent start]) @
      map (\<lambda>k. rangeElement P parent (start + P + int k * P)) [0..<n])"
    using Suc.hyps(1) [of "start + P" "acc @ [rangeElement P parent start]"] n Suc.prems by simp
  finally show ?case
    using shift Suc.hyps(2) [symmetric] by simp
qed

subsection \<open>The range nodes of a large collection\<close>

lemma rangeElement_sel:
  "id_str (rangeElement P parent start) = id_str parent @ numberToString start"
  "extHostId (rangeElement P parent start) = extHostId parent"
  "name (rangeElement P parent start) =
     ''['' @ numberToString start @ ''..''
       @ numberToString ((if start + P > indexedChildrenCount parent
                          then indexedChildrenCount parent else start + P) - 1) @ '']''"
  "value_str (rangeElement P parent start) = ''''"
  "type_str (rangeElement P parent start) = None"
  "indexedChildrenCount (rangeElement P parent start) =
     (if start + P > indexedChildrenCount parent then indexedChildrenCount parent else start + P) - start"
  "indexStart (rangeElement P parent start) = Some start"
  "hasNamedChildren (rangeElement P parent start) = False"
  "notebook (rangeElement P parent start) = notebook parent"
  by (simp_all add: rangeElement_def Let_def)

lemma getIndexedChildren_ranges:
  assumes "0 < P" and "P < indexedChildrenCount parent"
  shows "getIndexedChildren P parent k w =
     Some (Inr (map (\<lambda>i. rangeElement P parent (int i * P))
                  [0..<nat ((indexedChildrenCount parent + P - 1) div P)]), w)"
  using assms rangeLoop_closed [of P parent 0 "[]"]
  by (simp add: getIndexedChildren_def)

lemma block_start_less:
  assumes P: "0 < P" and i: "i < nat ((C + P - 1) div P)"
  shows "int i * P < C"
proof -
  from i have "int i \<le> (C + P - 1) div P - 1" by linarith
  with P have "int i * P \<le> ((C + P - 1) div P - 1) * P"
    by (simp add: mult_right_mono)
  with blocks_lower [OF P, of C] show ?thesis by linarith
qed

lemma block_inner_end:
  assumes P: "0 < P" and i: "Suc i < nat ((C + P - 1) div P)"
  shows "int i * P + P < C"
proof -
  have "int (Suc i) * P < C" by (rule block_start_less [OF P i])
  then show ?thesis by (simp add: algebra_simps)
qed

lemma block_last_end:
  assumes P: "0 < P" and i: "Suc i = nat ((C + P - 1) div P)"
  shows "C \<le> int i * P + P" and "int i * P = ((C + P - 1) div P - 1) * P"
proof -
  from i have e: "int i = (C + P - 1) div P - 1" by linarith
  then show "int i * P = ((C + P - 1) div P - 1) * P" by simp
  have "int i * P + P = ((C + P - 1) div P) * P" by (simp add: e algebra_simps)
  with blocks_upper [OF P, of C] show "C \<le> int i * P + P" by simp
qed

lemma block_count:
  assumes P: "0 < P" and i: "i < nat ((indexedChildrenCount parent + P - 1) div P)"
  shows "indexedChildrenCount (rangeElement P parent (int i * P)) =
     (if Suc i = nat ((indexedChildrenCount parent + P - 1) div P)
      then (if P dvd indexedChildrenCount parent then P else indexedChildrenCount parent mod P)
      else P)"
proof (cases "Suc i = nat ((indexedChildrenCount parent + P - 1) div P)")
  case True
  from block_last_end [OF P True] blocks_last [OF P, of "indexedChildrenCount parent"] P True
  show ?thesis
    by (auto simp: rangeElement_sel)
next
  case False
  with i have "Suc i < nat ((indexedChildrenCount parent + P - 1) div P)" by simp
  from block_inner_end [OF P this] False show ?thesis
    by (simp add: rangeElement_sel)
qed

lemma block_cover:
  assumes P: "0 < P" and j: "0 \<le> j" "j < C"
  shows "\<exists>!i. i < nat ((C + P - 1) div P) \<and> int i * P \<le> j
            \<and> j < (if int i * P + P > C then C else int i * P + P)"
proof (rule ex1I [of _ "nat (j div P)"])
  have q: "0 \<le> j div P" using P j by (simp add: pos_imp_zdiv_nonneg_iff)
  have e: "j = (j div P) * P + j mod P" by simp
  have m: "0 \<le> j mod P" "j mod P < P" using P by simp_all
  have lt: "j div P < (C + P - 1) div P"
  proof (rule ccontr)
    assume "\<not> j div P < (C + P - 1) div P"
    then have "(C + P - 1) div P \<le> j div P" by simp
    with P have "((C + P - 1) div P) * P \<le> (j div P) * P" by (simp add: mult_right_mono)
    with blocks_upper [OF P, of C] e m j show False by linarith
  qed
  have up: "j < (j div P) * P + P" using e m by linarith
  have dn: "(j div P) * P \<le> j" using e m by linarith
  show "nat (j div P) < nat ((C + P - 1) div P) \<and> int (nat (j div P)) * P \<le> j
      \<and> j < (if int (nat (j div P)) * P + P > C then C else int (nat (j div P)) * P + P)"
    using q lt j up dn by auto
next
  fix i
  assume a: "i < nat ((C + P - 1) div P) \<and> int i * P \<le> j
      \<and> j < (if int i * P + P > C then C else int i * P + P)"
  then have lo: "int i * P \<le> j" and hi: "j < int i * P + P"
    by (auto split: if_splits)
  have "j = P * int i + (j - int i * P)" by (simp add: algebra_simps)
  moreover have "0 \<le> j - int i * P" using lo by simp
  moreover have "j - int i * P < P" using hi by simp
  ultimately have "j div P = int i" by (rule int_div_pos_eq)
  then show "i = nat (j div P)" by simp
qed

lemma blocks_positive:
  assumes "0 < P" and "P < (C::int)"
  shows "0 < nat ((C + P - 1) div P)"
proof -
  from assms have "P \<le> C + P - 1" by simp
  with assms(1) have "0 < (C + P - 1) div P" by (simp add: pos_imp_zdiv_pos_iff)
  then show ?thesis by simp
qed

lemma range_element_fields:
  assumes P: "0 < P" and i: "i < nat ((indexedChildrenCount parent + P - 1) div P)"
  shows "\<exists>start end. 0 \<le> start \<and> start < end \<and> end \<le> indexedChildrenCount parent
      \<and> end = min (start + P) (indexedChildrenCount parent)
      \<and> indexStart (rangeElement P parent (int i * P)) = Some start
      \<and> indexedChildrenCount (rangeElement P parent (int i * P)) = end - start
      \<and> \<not> hasNamedChildren (rangeElement P parent (int i * P))
      \<and> value_str (rangeElement P parent (int i * P)) = ''''
      \<and> name (rangeElement P parent (int i * P))
          = ''['' @ numberToString start @ ''..'' @ numberToString (end - 1) @ '']''
      \<and> id_str (rangeElement P parent (int i * P)) = id_str parent @ numberToString start"
proof -
  let ?C = "indexedChildrenCount parent"
  let ?s = "int i * P"
  let ?e = "min (?s + P) ?C"
  have lt: "?s < ?C" by (rule block_start_less [OF P i])
  have nn: "0 \<le> ?s" using P by simp
  have e: "(if ?s + P > ?C then ?C else ?s + P) = ?e" by (simp add: min_def)
  have "0 \<le> ?s \<and> ?s < ?e \<and> ?e \<le> ?C \<and> ?e = min (?s + P) ?C
      \<and> indexStart (rangeElement P parent ?s) = Some ?s
      \<and> indexedChildrenCount (rangeElement P parent ?s) = ?e - ?s
      \<and> \<not> hasNamedChildren (rangeElement P parent ?s)
      \<and> value_str (rangeElement P parent ?s) = ''''
      \<and> name (rangeElement P parent ?s)
          = ''['' @ numberToString ?s @ ''..'' @ numberToString (?e - 1) @ '']''
      \<and> id_str (rangeElement P parent ?s) = id_str parent @ numberToString ?s"
    using lt nn P unfolding rangeElement_sel e by simp
  then show ?thesis by blast
qed

subsection \<open>Named children\<close>

lemma getNamedChildren_closed:
  "getNamedChildren parent k w =
     (if hasNamedChildren parent then
        ((case rejection (provideVariables k (uri (notebook parent)) (Some (extHostId parent))
                            named 0 (token w)) of
            None \<Rightarrow> Inr (map (\<lambda>v. createVariableElement v (notebook parent))
                          (emitted (provideVariables k (uri (notebook parent))
                                      (Some (extHostId parent)) named 0 (token w))))
          | Some e \<Rightarrow> Inl e),
         w\<lparr>trace := trace w
            @ ProvideVariables (uri (notebook parent)) (Some (extHostId parent)) named 0 (token w)
            # replicate (Suc (length (emitted (provideVariables k (uri (notebook parent))
                                      (Some (extHostId parent)) named 0 (token w))))) Next\<rparr>)
      else (Inr [], w))"
  by (simp add: getNamedChildren_def mapToPromise_closed Let_def split: option.splits)

lemma getNamedChildren_wrapped:
  assumes "getNamedChildren parent k w = (Inr children, w1)"
  shows "\<forall>n \<in> set children. \<exists>v. n = createVariableElement v (notebook parent)"
  using assms
  by (auto simp: getNamedChildren_closed split: if_splits option.splits)

lemma getVariables_closed:
  assumes "svc (notebook parent) = Some k" and "hasVariableProvider k"
    and "getNamedChildren parent k w = (Inr children, w1)"
  shows "getVariables svc P parent w = appendIndexedChildren P parent k children w1"
  using assms by (simp add: getVariables_def)

subsection \<open>A small collection\<close>

lemma forAwait_start:
  "0 < P \<Longrightarrow>
   forAwait P nb vs [] tr =
     (if nat P \<le> length (emitted vs)
      then (Inr (map (\<lambda>v. createVariableElement v nb) (take (nat P) (emitted vs))),
            tr @ replicate (nat P) Next)
      else ((case rejection vs of
               None \<Rightarrow> Inr (map (\<lambda>v. createVariableElement v nb) (emitted vs))
             | Some e \<Rightarrow> Inl e),
            tr @ replicate (Suc (length (emitted vs))) Next))"
  using forAwait_closed [of "[]" P nb vs tr]
  by (simp split: option.splits)

lemma getIndexedChildren_direct:
  assumes "0 < indexedChildrenCount parent" and "indexedChildrenCount parent \<le> P"
  shows "\<exists>r p.
      getIndexedChildren P parent k w =
        Some (r, w\<lparr>trace := trace w
           @ ProvideVariables (uri (notebook parent)) (Some (extHostId parent)) indexed
               (case indexStart parent of None \<Rightarrow> 0 | Some i \<Rightarrow> i) (token w)
           # replicate p Next\<rparr>)
    \<and> p \<le> nat P
    \<and> p \<le> Suc (length (emitted (provideVariables k (uri (notebook parent))
               (Some (extHostId parent)) indexed
               (case indexStart parent of None \<Rightarrow> 0 | Some i \<Rightarrow> i) (token w))))
    \<and> (\<forall>cs. r = Inr cs \<longrightarrow>
          cs = map (\<lambda>v. createVariableElement v (notebook parent))
                 (take (nat P) (emitted (provideVariables k (uri (notebook parent))
                    (Some (extHostId parent)) indexed
                    (case indexStart parent of None \<Rightarrow> 0 | Some i \<Rightarrow> i) (token w)))))
    \<and> (rejection (provideVariables k (uri (notebook parent))
               (Some (extHostId parent)) indexed
               (case indexStart parent of None \<Rightarrow> 0 | Some i \<Rightarrow> i) (token w)) = None
         \<longrightarrow> (\<exists>cs. r = Inr cs))"
proof -
  let ?st = "case indexStart parent of None \<Rightarrow> 0 | Some i \<Rightarrow> i"
  let ?vs = "provideVariables k (uri (notebook parent)) (Some (extHostId parent)) indexed ?st (token w)"
  let ?q = "ProvideVariables (uri (notebook parent)) (Some (extHostId parent)) indexed ?st (token w)"
  from assms have P: "0 < P" by simp
  then have fa: "forAwait P (notebook parent) ?vs [] (trace w @ [?q]) =
     (if nat P \<le> length (emitted ?vs)
      then (Inr (map (\<lambda>v. createVariableElement v (notebook parent)) (take (nat P) (emitted ?vs))),
            (trace w @ [?q]) @ replicate (nat P) Next)
      else ((case rejection ?vs of
               None \<Rightarrow> Inr (map (\<lambda>v. createVariableElement v (notebook parent)) (emitted ?vs))
             | Some e \<Rightarrow> Inl e),
            (trace w @ [?q]) @ replicate (Suc (length (emitted ?vs))) Next))"
    by (rule forAwait_start)
  show ?thesis
  proof (cases "nat P \<le> length (emitted ?vs)")
    case True
    have "getIndexedChildren P parent k w =
        Some (Inr (map (\<lambda>v. createVariableElement v (notebook parent)) (take (nat P) (emitted ?vs))),
              w\<lparr>trace := trace w @ ?q # replicate (nat P) Next\<rparr>)"
      using assms True by (simp add: getIndexedChildren_def fa Let_def)
    then show ?thesis using True by auto
  next
    case False
    have g: "getIndexedChildren P parent k w =
        Some ((case rejection ?vs of
               None \<Rightarrow> Inr (map (\<lambda>v. createVariableElement v (notebook parent)) (emitted ?vs))
             | Some e \<Rightarrow> Inl e),
              w\<lparr>trace := trace w @ ?q # replicate (Suc (length (emitted ?vs))) Next\<rparr>)"
      using assms False by (simp add: getIndexedChildren_def fa Let_def)
    from False have t: "take (nat P) (emitted ?vs) = emitted ?vs" by simp
    show ?thesis
      apply (rule exI [of _ "case rejection ?vs of
               None \<Rightarrow> Inr (map (\<lambda>v. createVariableElement v (notebook parent)) (emitted ?vs))
             | Some e \<Rightarrow> Inl e"])
      apply (rule exI [of _ "Suc (length (emitted ?vs))"])
      using False g t by (auto split: option.splits)
  qed
qed

lemma appendIndexedChildren_cases:
  assumes "getIndexedChildren P parent k w1 = Some (r0, w2)" and "0 < indexedChildrenCount parent"
  shows "appendIndexedChildren P parent k children w1 =
     Some ((case r0 of Inl e \<Rightarrow> Inl e | Inr childNodes \<Rightarrow> Inr (children @ childNodes)), w2)"
  using assms by (simp add: appendIndexedChildren_def split: sum.splits)

lemma getChildren_direct:
  assumes "0 < indexedChildrenCount parent" and "indexedChildrenCount parent \<le> P"
    and "svc (notebook parent) = Some k" and "hasVariableProvider k"
    and "getNamedChildren parent k w = (Inr children, w1)"
  shows "\<exists>r p.
      getChildren svc P (Variable parent) w =
        Some (r, w1\<lparr>trace := trace w1
           @ ProvideVariables (uri (notebook parent)) (Some (extHostId parent)) indexed
               (case indexStart parent of None \<Rightarrow> 0 | Some i \<Rightarrow> i) (token w1)
           # replicate p Next\<rparr>)
    \<and> p \<le> nat P
    \<and> (\<forall>cs. r = Inr cs \<longrightarrow>
          (\<exists>ixs. cs = children @ ixs \<and> int (length ixs) \<le> P
             \<and> ixs = map (\<lambda>v. createVariableElement v (notebook parent))
                 (take (nat P) (emitted (provideVariables k (uri (notebook parent))
                    (Some (extHostId parent)) indexed
                    (case indexStart parent of None \<Rightarrow> 0 | Some i \<Rightarrow> i) (token w1))))))
    \<and> (rejection (provideVariables k (uri (notebook parent))
               (Some (extHostId parent)) indexed
               (case indexStart parent of None \<Rightarrow> 0 | Some i \<Rightarrow> i) (token w1)) = None
         \<longrightarrow> (\<exists>cs. r = Inr cs))"
proof -
  let ?st = "case indexStart parent of None \<Rightarrow> 0 | Some i \<Rightarrow> i"
  let ?vs = "provideVariables k (uri (notebook parent)) (Some (extHostId parent)) indexed ?st (token w1)"
  let ?q = "ProvideVariables (uri (notebook parent)) (Some (extHostId parent)) indexed ?st (token w1)"
  note d = getIndexedChildren_direct [OF assms(1,2), where k = k and w = w1]
  from d obtain r0 p where all: "getIndexedChildren P parent k w1 =
        Some (r0, w1\<lparr>trace := trace w1 @ ?q # replicate p Next\<rparr>)
    \<and> p \<le> nat P
    \<and> p \<le> Suc (length (emitted ?vs))
    \<and> (\<forall>cs. r0 = Inr cs \<longrightarrow>
          cs = map (\<lambda>v. createVariableElement v (notebook parent)) (take (nat P) (emitted ?vs)))
    \<and> (rejection ?vs = None \<longrightarrow> (\<exists>cs. r0 = Inr cs))"
    by (elim exE)
  from all have g: "getIndexedChildren P parent k w1 =
        Some (r0, w1\<lparr>trace := trace w1 @ ?q # replicate p Next\<rparr>)"
    and p: "p \<le> nat P"
    and ok: "\<forall>cs. r0 = Inr cs \<longrightarrow>
          cs = map (\<lambda>v. createVariableElement v (notebook parent)) (take (nat P) (emitted ?vs))"
    and tot: "rejection ?vs = None \<longrightarrow> (\<exists>cs. r0 = Inr cs)"
    by simp_all
  let ?r = "case r0 of Inl e \<Rightarrow> Inl e | Inr childNodes \<Rightarrow> Inr (children @ childNodes)"
  have "getChildren svc P (Variable parent) w = appendIndexedChildren P parent k children w1"
    using assms(3-5) by (simp add: getChildren_def getVariables_closed)
  also have "\<dots> = Some (?r, w1\<lparr>trace := trace w1 @ ?q # replicate p Next\<rparr>)"
    using g assms(1) by (rule appendIndexedChildren_cases)
  finally have gc: "getChildren svc P (Variable parent) w =
      Some (?r, w1\<lparr>trace := trace w1 @ ?q # replicate p Next\<rparr>)" .
  have len: "int (length (map (\<lambda>v. createVariableElement v (notebook parent))
                 (take (nat P) (emitted ?vs)))) \<le> P"
    using assms(1,2) by simp
  have r1: "\<forall>cs. ?r = Inr cs \<longrightarrow>
          (\<exists>ixs. cs = children @ ixs \<and> int (length ixs) \<le> P
             \<and> ixs = map (\<lambda>v. createVariableElement v (notebook parent))
                 (take (nat P) (emitted ?vs)))"
    using ok len by (cases r0) auto
  have r2: "rejection ?vs = None \<longrightarrow> (\<exists>cs. ?r = Inr cs)"
    using tot by (cases r0) auto
  show ?thesis
    by (rule exI [of _ ?r], rule exI [of _ p]) (intro conjI gc p r1 r2)
qed

subsection \<open>Where the nodes of a result come from\<close>

lemma getRootVariables_closed:
  assumes "svc nb = Some k" and "hasVariableProvider k"
  shows "getRootVariables svc nb w =
     Some ((case rejection (provideVariables k (uri nb) None named 0 (token w)) of
              None \<Rightarrow> Inr (map (\<lambda>v. createVariableElement v nb)
                            (emitted (provideVariables k (uri nb) None named 0 (token w))))
            | Some e \<Rightarrow> Inl e),
           w\<lparr>trace := trace w @ ProvideVariables (uri nb) None named 0 (token w)
              # replicate (Suc (length (emitted (provideVariables k (uri nb) None named 0 (token w))))) Next\<rparr>)"
  using assms
  by (simp add: getRootVariables_def mapToPromise_closed Let_def split: option.splits)

lemma getVariables_parts:
  assumes "svc (notebook parent) = Some k" and "hasVariableProvider k"
    and "getVariables svc P parent w = Some (Inr cs, w')"
  shows "\<exists>children w1. getNamedChildren parent k w = (Inr children, w1)
      \<and> appendIndexedChildren P parent k children w1 = Some (Inr cs, w')"
proof -
  obtain r1 w1 where n: "getNamedChildren parent k w = (r1, w1)" by (cases "getNamedChildren parent k w")
  show ?thesis
  proof (cases r1)
    case (Inl e)
    with assms n show ?thesis by (simp add: getVariables_def)
  next
    case (Inr children)
    with assms n show ?thesis by (simp add: getVariables_def)
  qed
qed

lemma appendIndexedChildren_parts:
  assumes "appendIndexedChildren P parent k children w1 = Some (Inr cs, w')"
  shows "(indexedChildrenCount parent \<le> 0 \<and> cs = children \<and> w' = w1)
     \<or> (0 < indexedChildrenCount parent
         \<and> (\<exists>ixs. getIndexedChildren P parent k w1 = Some (Inr ixs, w') \<and> cs = children @ ixs))"
  using assms
  by (auto simp: appendIndexedChildren_def split: if_splits option.splits sum.splits prod.splits)

lemma getIndexedChildren_nodes:
  assumes P: "0 < P" and g: "getIndexedChildren P parent k w1 = Some (Inr ixs, w')"
  shows "\<forall>n \<in> set ixs.
      (\<exists>v. n = createVariableElement v (notebook parent))
    \<or> (\<exists>start. P < indexedChildrenCount parent \<and> 0 \<le> start \<and> start < indexedChildrenCount parent
          \<and> n = rangeElement P parent start
          \<and> indexedChildrenCount n < indexedChildrenCount parent)"
proof (cases "P < indexedChildrenCount parent")
  case True
  let ?N = "nat ((indexedChildrenCount parent + P - 1) div P)"
  from g getIndexedChildren_ranges [OF P True, of k w1]
  have ixs: "ixs = map (\<lambda>i. rangeElement P parent (int i * P)) [0..<?N]" by simp
  show ?thesis
  proof
    fix n assume "n \<in> set ixs"
    with ixs obtain i where i: "i < ?N" and n: "n = rangeElement P parent (int i * P)" by auto
    have lt: "int i * P < indexedChildrenCount parent" by (rule block_start_less [OF P i])
    have nn: "0 \<le> int i * P" using P by simp
    have "indexedChildrenCount n \<le> P" by (simp add: n rangeElement_sel)
    with True have "indexedChildrenCount n < indexedChildrenCount parent" by simp
    with True lt nn n show "(\<exists>v. n = createVariableElement v (notebook parent))
    \<or> (\<exists>start. P < indexedChildrenCount parent \<and> 0 \<le> start \<and> start < indexedChildrenCount parent
          \<and> n = rangeElement P parent start
          \<and> indexedChildrenCount n < indexedChildrenCount parent)" by blast
  qed
next
  case False
  show ?thesis
  proof (cases "0 < indexedChildrenCount parent")
    case True
    from False have le: "indexedChildrenCount parent \<le> P" by simp
    from getIndexedChildren_direct [OF True le, of k w1] g
    have "\<exists>vs. ixs = map (\<lambda>v. createVariableElement v (notebook parent)) vs" by auto
    then show ?thesis by auto
  next
    case F: False
    with False g have "ixs = []" by (simp add: getIndexedChildren_def)
    then show ?thesis by simp
  qed
qed

lemma getChildren_nodes:
  assumes P: "0 < P" and g: "getChildren svc P el w = Some (Inr cs, w')"
  shows "\<forall>n \<in> set cs.
      (\<exists>v. n = createVariableElement v (notebookOf el))
    \<or> (\<exists>parent start. el = Variable parent \<and> P < indexedChildrenCount parent
          \<and> 0 \<le> start \<and> start < indexedChildrenCount parent
          \<and> n = rangeElement P parent start
          \<and> indexedChildrenCount n < indexedChildrenCount parent)"
proof (cases el)
  case (Scope nb)
  show ?thesis
  proof (cases "svc nb")
    case None
    with g Scope show ?thesis by (simp add: getChildren_def getRootVariables_def)
  next
    case (Some k)
    show ?thesis
    proof (cases "hasVariableProvider k")
      case True
      from g Scope getRootVariables_closed [where svc = svc and nb = nb and k = k and w = w, OF Some True]
      show ?thesis
        by (auto simp: getChildren_def notebookOf_def split: option.splits)
    next
      case False
      with g Scope Some show ?thesis by (simp add: getChildren_def getRootVariables_def)
    qed
  qed
next
  case (Variable parent)
  with g have gv: "getVariables svc P parent w = Some (Inr cs, w')" by (simp add: getChildren_def)
  show ?thesis
  proof (cases "svc (notebook parent)")
    case None
    with gv show ?thesis by (simp add: getVariables_def)
  next
    case (Some k)
    show ?thesis
    proof (cases "hasVariableProvider k")
      case False
      with gv Some show ?thesis by (simp add: getVariables_def)
    next
      case True
      from getVariables_parts [where svc = svc and parent = parent and k = k, OF Some True gv]
      obtain children w1 where n: "getNamedChildren parent k w = (Inr children, w1)"
        and a: "appendIndexedChildren P parent k children w1 = Some (Inr cs, w')" by blast
      note wr = getNamedChildren_wrapped [OF n]
      from appendIndexedChildren_parts [OF a]
      show ?thesis
      proof
        assume "indexedChildrenCount parent \<le> 0 \<and> cs = children \<and> w' = w1"
        with wr Variable show ?thesis by (simp add: notebookOf_def)
      next
        assume "0 < indexedChildrenCount parent
         \<and> (\<exists>ixs. getIndexedChildren P parent k w1 = Some (Inr ixs, w') \<and> cs = children @ ixs)"
        then obtain ixs where ix: "getIndexedChildren P parent k w1 = Some (Inr ixs, w')"
          and cs: "cs = children @ ixs" by blast
        note getIndexedChildren_nodes [OF P ix]
        with wr cs Variable show ?thesis
          by (auto simp: notebookOf_def)
      qed
    qed
  qed
qed

subsection \<open>Range nodes are small\<close>

lemma range_nodes_small:
  assumes P: "0 < P" and i: "i < nat ((indexedChildrenCount parent + P - 1) div P)"
  shows "0 < indexedChildrenCount (rangeElement P parent (int i * P))"
    and "indexedChildrenCount (rangeElement P parent (int i * P)) \<le> P"
proof -
  have lt: "int i * P < indexedChildrenCount parent" by (rule block_start_less [OF P i])
  with P show "0 < indexedChildrenCount (rangeElement P parent (int i * P))"
    by (simp add: rangeElement_sel)
  show "indexedChildrenCount (rangeElement P parent (int i * P)) \<le> P"
    by (simp add: rangeElement_sel)
qed

lemma getNamedChildren_none:
  "\<not> hasNamedChildren parent \<Longrightarrow> getNamedChildren parent k w = (Inr [], w)"
  by (simp add: getNamedChildren_def)

subsection \<open>The effect of a fetch on the world\<close>

lemma token_trace [simp]: "token (w\<lparr>trace := tr\<rparr>) = token w"
  by (simp add: token_def)

lemma cancel_fields:
  "cancellationTokenSource (cancel w) = length (store w)"
  "trace (cancel w) = trace w"
  "length (store (cancel w)) = Suc (length (store w))"
  "store (cancel w) ! length (store w) = new_CancellationTokenSource"
  by (simp_all add: cancel_def Let_def nth_append)

lemma cancel_old:
  assumes "r < length (store w)"
  shows "store (cancel w) ! r =
     (if r = cancellationTokenSource w
      then dispose_source (cancel_source (store w ! r)) else store w ! r)"
  using assms by (simp add: cancel_def Let_def nth_append)

lemma token_cancel:
  "token (cancel w) = \<lparr>source_ref = length (store w), isCancellationRequested = False\<rparr>"
  by (simp add: token_def cancel_fields new_CancellationTokenSource_def)

lemma world_trace_id: "w\<lparr>trace := trace w @ []\<rparr> = w"
  by simp

text \<open>The field always refers to an allocated token source: it does so after the
  constructor and after \<open>cancel\<close>, and a fetch changes the trace only.\<close>

lemma constructor_allocated:
  "cancellationTokenSource constructor < length (store constructor)"
  by (simp add: constructor_def)

lemma cancel_allocated:
  "cancellationTokenSource (cancel w) < length (store (cancel w))"
  by (simp add: cancel_fields)

lemma getNamedChildren_effect:
  "\<exists>r evs. getNamedChildren parent k w = (r, w\<lparr>trace := trace w @ evs\<rparr>)
     \<and> list_all (carries (token w)) evs
     \<and> ((\<forall>u h kd st. rejection (provideVariables k u h kd st (token w)) = None)
          \<longrightarrow> (\<exists>cs. r = Inr cs))"
proof (cases "hasNamedChildren parent")
  case True
  let ?vs = "provideVariables k (uri (notebook parent)) (Some (extHostId parent)) named 0 (token w)"
  let ?evs = "ProvideVariables (uri (notebook parent)) (Some (extHostId parent)) named 0 (token w)
            # replicate (Suc (length (emitted ?vs))) Next"
  let ?r = "case rejection ?vs of
            None \<Rightarrow> Inr (map (\<lambda>v. createVariableElement v (notebook parent)) (emitted ?vs))
          | Some e \<Rightarrow> Inl e"
  have g: "getNamedChildren parent k w = (?r, w\<lparr>trace := trace w @ ?evs\<rparr>)"
    using True by (simp add: getNamedChildren_closed)
  have c: "list_all (carries (token w)) ?evs" by (simp add: list_all_iff)
  have t: "(\<forall>u h kd st. rejection (provideVariables k u h kd st (token w)) = None)
          \<longrightarrow> (\<exists>cs. ?r = Inr cs)" by simp
  show ?thesis
    by (rule exI [of _ ?r], rule exI [of _ ?evs]) (intro conjI g c t)
next
  case False
  have g: "getNamedChildren parent k w = (Inr [], w\<lparr>trace := trace w @ []\<rparr>)"
    using False by (simp add: getNamedChildren_def)
  show ?thesis
    by (rule exI [of _ "Inr []"], rule exI [of _ "[]"]) (simp add: g)
qed

lemma getRootVariables_effect:
  "\<exists>r evs. getRootVariables svc nb w = Some (r, w\<lparr>trace := trace w @ evs\<rparr>)
     \<and> list_all (carries (token w)) evs
     \<and> ((\<forall>nb k u h kd st. svc nb = Some k \<longrightarrow>
            rejection (provideVariables k u h kd st (token w)) = None)
          \<longrightarrow> (\<exists>cs. r = Inr cs))"
proof (cases "\<exists>k. svc nb = Some k \<and> hasVariableProvider k")
  case True
  then obtain k where k: "svc nb = Some k" and hp: "hasVariableProvider k" by blast
  let ?vs = "provideVariables k (uri nb) None named 0 (token w)"
  let ?evs = "ProvideVariables (uri nb) None named 0 (token w)
            # replicate (Suc (length (emitted ?vs))) Next"
  let ?r = "case rejection ?vs of
            None \<Rightarrow> Inr (map (\<lambda>v. createVariableElement v nb) (emitted ?vs))
          | Some e \<Rightarrow> Inl e"
  have g: "getRootVariables svc nb w = Some (?r, w\<lparr>trace := trace w @ ?evs\<rparr>)"
    using getRootVariables_closed [where svc = svc and nb = nb and k = k and w = w, OF k hp]
    by simp
  have c: "list_all (carries (token w)) ?evs" by (simp add: list_all_iff)
  have t: "(\<forall>nb k u h kd st. svc nb = Some k \<longrightarrow>
            rejection (provideVariables k u h kd st (token w)) = None)
          \<longrightarrow> (\<exists>cs. ?r = Inr cs)" using k by simp
  show ?thesis
    by (rule exI [of _ ?r], rule exI [of _ ?evs]) (intro conjI g c t)
next
  case False
  then have g: "getRootVariables svc nb w = Some (Inr [], w\<lparr>trace := trace w @ []\<rparr>)"
    by (auto simp: getRootVariables_def split: option.splits)
  show ?thesis
    by (rule exI [of _ "Inr []"], rule exI [of _ "[]"]) (simp add: g)
qed

lemma getIndexedChildren_effect:
  assumes P: "0 < P"
  shows "\<exists>r evs. getIndexedChildren P parent k w = Some (r, w\<lparr>trace := trace w @ evs\<rparr>)
     \<and> list_all (carries (token w)) evs
     \<and> ((\<forall>u h kd st. rejection (provideVariables k u h kd st (token w)) = None)
          \<longrightarrow> (\<exists>cs. r = Inr cs))"
proof -
  consider (big) "P < indexedChildrenCount parent"
    | (small) "0 < indexedChildrenCount parent" "indexedChildrenCount parent \<le> P"
    | (none) "indexedChildrenCount parent \<le> 0" by linarith
  then show ?thesis
  proof cases
    case big
    let ?ranges = "map (\<lambda>i. rangeElement P parent (int i * P))
        [0..<nat ((indexedChildrenCount parent + P - 1) div P)]"
    have g: "getIndexedChildren P parent k w = Some (Inr ?ranges, w\<lparr>trace := trace w @ []\<rparr>)"
      using getIndexedChildren_ranges [OF P big, of k w] by simp
    show ?thesis
      by (rule exI [of _ "Inr ?ranges"], rule exI [of _ "[]"]) (simp add: g)
  next
    case small
    let ?st = "case indexStart parent of None \<Rightarrow> 0 | Some i \<Rightarrow> i"
    let ?vs = "provideVariables k (uri (notebook parent)) (Some (extHostId parent)) indexed ?st (token w)"
    let ?q = "ProvideVariables (uri (notebook parent)) (Some (extHostId parent)) indexed ?st (token w)"
    from getIndexedChildren_direct [OF small, where k = k and w = w]
    obtain r p where all: "getIndexedChildren P parent k w =
        Some (r, w\<lparr>trace := trace w @ ?q # replicate p Next\<rparr>)
      \<and> p \<le> nat P
      \<and> p \<le> Suc (length (emitted ?vs))
      \<and> (\<forall>cs. r = Inr cs \<longrightarrow>
          cs = map (\<lambda>v. createVariableElement v (notebook parent)) (take (nat P) (emitted ?vs)))
      \<and> (rejection ?vs = None \<longrightarrow> (\<exists>cs. r = Inr cs))"
      by (elim exE)
    from all have g: "getIndexedChildren P parent k w =
        Some (r, w\<lparr>trace := trace w @ ?q # replicate p Next\<rparr>)" by (rule conjunct1)
    from all have t0: "rejection ?vs = None \<longrightarrow> (\<exists>cs. r = Inr cs)"
      by (rule conjunct2 [OF conjunct2 [OF conjunct2 [OF conjunct2]]])
    have c: "list_all (carries (token w)) (?q # replicate p Next)" by (simp add: list_all_iff)
    have t: "(\<forall>u h kd st. rejection (provideVariables k u h kd st (token w)) = None)
          \<longrightarrow> (\<exists>cs. r = Inr cs)"
    proof
      assume "\<forall>u h kd st. rejection (provideVariables k u h kd st (token w)) = None"
      then have "rejection ?vs = None" by simp
      with t0 show "\<exists>cs. r = Inr cs" by simp
    qed
    show ?thesis
      by (rule exI [of _ r], rule exI [of _ "?q # replicate p Next"]) (intro conjI g c t)
  next
    case none
    with P have g: "getIndexedChildren P parent k w = Some (Inr [], w\<lparr>trace := trace w @ []\<rparr>)"
      by (simp add: getIndexedChildren_def)
    show ?thesis
      by (rule exI [of _ "Inr []"], rule exI [of _ "[]"]) (simp add: g)
  qed
qed

lemma getVariables_effect:
  assumes P: "0 < P"
  shows "\<exists>r evs. getVariables svc P parent w = Some (r, w\<lparr>trace := trace w @ evs\<rparr>)
     \<and> list_all (carries (token w)) evs
     \<and> ((\<forall>nb k u h kd st. svc nb = Some k \<longrightarrow>
            rejection (provideVariables k u h kd st (token w)) = None)
          \<longrightarrow> (\<exists>cs. r = Inr cs))"
proof (cases "\<exists>k. svc (notebook parent) = Some k \<and> hasVariableProvider k")
  case False
  then have g: "getVariables svc P parent w = Some (Inr [], w\<lparr>trace := trace w @ []\<rparr>)"
    by (auto simp: getVariables_def split: option.splits)
  show ?thesis
    by (rule exI [of _ "Inr []"], rule exI [of _ "[]"]) (simp add: g)
next
  case True
  then obtain k where k: "svc (notebook parent) = Some k" and hp: "hasVariableProvider k" by blast
  let ?ok = "\<forall>nb k u h kd st. svc nb = Some k \<longrightarrow>
            rejection (provideVariables k u h kd st (token w)) = None"
  have okk: "?ok \<Longrightarrow> \<forall>u h kd st. rejection (provideVariables k u h kd st (token w)) = None"
    using k by blast
  from getNamedChildren_effect [of parent k w]
  obtain r1 evs1 where n: "getNamedChildren parent k w = (r1, w\<lparr>trace := trace w @ evs1\<rparr>)"
    and c1: "list_all (carries (token w)) evs1"
    and t1: "(\<forall>u h kd st. rejection (provideVariables k u h kd st (token w)) = None)
          \<longrightarrow> (\<exists>cs. r1 = Inr cs)"
    by (elim exE conjE)
  show ?thesis
  proof (cases r1)
    case (Inl e)
    with n k hp have g: "getVariables svc P parent w = Some (Inl e, w\<lparr>trace := trace w @ evs1\<rparr>)"
      by (simp add: getVariables_def)
    have t: "?ok \<longrightarrow> (\<exists>cs. (Inl e :: error + INotebookVariableElement list) = Inr cs)"
    proof
      assume ?ok
      from okk [OF this] t1 obtain cs where "r1 = Inr cs" by auto
      with Inl show "\<exists>cs. (Inl e :: error + INotebookVariableElement list) = Inr cs" by simp
    qed
    show ?thesis
      by (rule exI [of _ "Inl e"], rule exI [of _ evs1]) (intro conjI g c1 t)
  next
    case (Inr children)
    let ?w1 = "w\<lparr>trace := trace w @ evs1\<rparr>"
    from n Inr k hp have gv: "getVariables svc P parent w = appendIndexedChildren P parent k children ?w1"
      by (simp add: getVariables_def)
    show ?thesis
    proof (cases "0 < indexedChildrenCount parent")
      case False
      with gv have g: "getVariables svc P parent w = Some (Inr children, w\<lparr>trace := trace w @ evs1\<rparr>)"
        by (simp add: appendIndexedChildren_def)
      show ?thesis
        by (rule exI [of _ "Inr children"], rule exI [of _ evs1]) (simp add: g c1)
    next
      case True
      from getIndexedChildren_effect [OF P, of parent k ?w1]
      obtain r2 evs2 where ix: "getIndexedChildren P parent k ?w1 =
            Some (r2, ?w1\<lparr>trace := trace ?w1 @ evs2\<rparr>)"
        and c2: "list_all (carries (token ?w1)) evs2"
        and t2: "(\<forall>u h kd st. rejection (provideVariables k u h kd st (token ?w1)) = None)
          \<longrightarrow> (\<exists>cs. r2 = Inr cs)"
        by (elim exE conjE)
      let ?r = "case r2 of Inl e \<Rightarrow> Inl e | Inr childNodes \<Rightarrow> Inr (children @ childNodes)"
      have "appendIndexedChildren P parent k children ?w1 =
          Some (?r, ?w1\<lparr>trace := trace ?w1 @ evs2\<rparr>)"
        using ix True by (rule appendIndexedChildren_cases)
      with gv have g: "getVariables svc P parent w = Some (?r, w\<lparr>trace := trace w @ (evs1 @ evs2)\<rparr>)"
        by simp
      have c: "list_all (carries (token w)) (evs1 @ evs2)"
        using c1 c2 by simp
      have t: "?ok \<longrightarrow> (\<exists>cs. ?r = Inr cs)"
      proof
        assume ?ok
        from okk [OF this] t2 obtain cs where "r2 = Inr cs" by auto
        then show "\<exists>cs. ?r = Inr cs" by simp
      qed
      show ?thesis
        by (rule exI [of _ ?r], rule exI [of _ "evs1 @ evs2"]) (intro conjI g c t)
    qed
  qed
qed

lemma getChildren_effect:
  assumes P: "0 < P"
  shows "\<exists>r evs. getChildren svc P el w = Some (r, w\<lparr>trace := trace w @ evs\<rparr>)
     \<and> list_all (carries (token w)) evs
     \<and> ((\<forall>nb k u h kd st. svc nb = Some k \<longrightarrow>
            rejection (provideVariables k u h kd st (token w)) = None)
          \<longrightarrow> (\<exists>cs. r = Inr cs))"
proof (cases el)
  case (Scope nb)
  then show ?thesis
    using getRootVariables_effect [of svc nb w] by (simp add: getChildren_def)
next
  case (Variable parent)
  then show ?thesis
    using getVariables_effect [OF P, of svc parent w] by (simp add: getChildren_def)
qed

lemma rejection_fromList [simp]: "rejection (fromList xs) = None"
  by (induction xs) simp_all

lemma emitted_fromList [simp]: "emitted (fromList xs) = xs"
  by (induction xs) simp_all

subsection \<open>hasChildren\<close>

text \<open>
  C3. \<open>hasChildren\<close> is a function of the element alone (it takes neither the state of the
  world nor a provider, so it issues no provider query): it is true of the scope, and of a
  node exactly when the node has named children or a positive count of indexed children.
\<close>

theorem hasChildren_spec:
  "hasChildren (Scope nb) \<and>
   hasChildren (Variable e) = (hasNamedChildren e \<or> 0 < indexedChildrenCount e)"
  by (simp add: hasChildren_def)

subsection \<open>No provider\<close>

text \<open>
  C5. For a scope or a node, when no kernel is selected for the notebook, or the selected
  kernel has no variable provider, \<open>getChildren\<close> returns the empty list, not a failure,
  and leaves the state as it is.
\<close>

theorem getChildren_no_provider:
  assumes "svc (notebookOf el) = None
     \<or> (\<exists>k. svc (notebookOf el) = Some k \<and> \<not> hasVariableProvider k)"
  shows "getChildren svc P el w = Some (Inr [], w)"
  using assms
  by (cases el)
     (auto simp: getChildren_def getRootVariables_def getVariables_def notebookOf_def)

theorem getChildren_no_provider_witness:
  "(\<lambda>_. Some ((listKernel [] [])\<lparr>hasVariableProvider := False\<rparr>)) (notebookOf (Scope exampleNotebook))
     = Some ((listKernel [] [])\<lparr>hasVariableProvider := False\<rparr>)
   \<and> \<not> hasVariableProvider ((listKernel [] [])\<lparr>hasVariableProvider := False\<rparr>)
   \<and> getChildren (\<lambda>_. Some ((listKernel [] [])\<lparr>hasVariableProvider := False\<rparr>)) 100
        (Scope exampleNotebook) constructor = Some (Inr [], constructor)"
  using getChildren_no_provider
    [of "\<lambda>_. Some ((listKernel [] [])\<lparr>hasVariableProvider := False\<rparr>)"
        "Scope exampleNotebook" 100 constructor]
  by simp

subsection \<open>Range splitting\<close>

text \<open>
  C1. Let a node have \<open>C\<close> indexed children with \<open>C\<close> greater than the page size \<open>P\<close>
  (a positive number), and let the query for its named children, if any, have delivered
  \<open>children\<close> and left the world in \<open>w1\<close>. Then \<open>getChildren\<close> returns \<open>children\<close>
  followed by the range nodes, and the indexed part issues no provider query: the world
  stays \<open>w1\<close>. The range nodes are the only nodes with a start offset; there are
  \<open>\<lceil>C / P\<rceil>\<close> of them; the \<open>i\<close>-th has \<open>indexStart = i * P\<close>, so the offsets are
  \<open>0, P, 2P, \<dots>\<close>; each has \<open>P\<close> indexed children except the last, which has
  \<open>C mod P\<close>, or \<open>P\<close> when \<open>P\<close> divides \<open>C\<close>; and every offset of \<open>[0, C)\<close> lies in
  the block of exactly one range node.
\<close>

theorem getChildren_range_split:
  assumes "0 < P" and "P < indexedChildrenCount parent"
    and "svc (notebook parent) = Some k" and "hasVariableProvider k"
    and "getNamedChildren parent k w = (Inr children, w1)"
  shows "\<exists>ranges.
      getChildren svc P (Variable parent) w = Some (Inr (children @ ranges), w1)
    \<and> getIndexedChildren P parent k w1 = Some (Inr ranges, w1)
    \<and> (\<forall>n \<in> set children. indexStart n = None)
    \<and> int (length ranges) = \<lceil>real_of_int (indexedChildrenCount parent) / real_of_int P\<rceil>
    \<and> (\<forall>i < length ranges. indexStart (ranges ! i) = Some (int i * P))
    \<and> (\<forall>i < length ranges. indexedChildrenCount (ranges ! i) =
          (if Suc i = length ranges
           then (if P dvd indexedChildrenCount parent then P else indexedChildrenCount parent mod P)
           else P))
    \<and> (\<forall>j. 0 \<le> j \<and> j < indexedChildrenCount parent \<longrightarrow>
          (\<exists>!i. i < length ranges \<and> int i * P \<le> j
                \<and> j < int i * P + indexedChildrenCount (ranges ! i)))"
proof -
  let ?C = "indexedChildrenCount parent"
  let ?N = "nat ((?C + P - 1) div P)"
  let ?ranges = "map (\<lambda>i. rangeElement P parent (int i * P)) [0..<?N]"
  have P: "0 < P" by fact
  have ix: "getIndexedChildren P parent k w1 = Some (Inr ?ranges, w1)"
    using assms(1,2) by (rule getIndexedChildren_ranges)
  have "getChildren svc P (Variable parent) w = appendIndexedChildren P parent k children w1"
    using assms(3-5) by (simp add: getChildren_def getVariables_closed)
  also have "\<dots> = Some (Inr (children @ ?ranges), w1)"
    using assms(1,2) ix by (simp add: appendIndexedChildren_def)
  finally have gc: "getChildren svc P (Variable parent) w = Some (Inr (children @ ?ranges), w1)" .
  have nc: "\<forall>n \<in> set children. indexStart n = None"
    using getNamedChildren_wrapped [OF assms(5)] by (auto simp: createVariableElement_def)
  have "0 \<le> (?C + P - 1) div P"
    using assms(1,2) by (simp add: pos_imp_zdiv_nonneg_iff)
  then have len: "int (length ?ranges) = \<lceil>real_of_int ?C / real_of_int P\<rceil>"
    using blocks_ceiling [OF P, of ?C] by simp
  have st: "\<forall>i < length ?ranges. indexStart (?ranges ! i) = Some (int i * P)"
    by (simp add: rangeElement_sel)
  have cnt: "\<forall>i < length ?ranges. indexedChildrenCount (?ranges ! i) =
          (if Suc i = length ?ranges
           then (if P dvd ?C then P else ?C mod P) else P)"
    using block_count [OF P, of _ parent] by simp
  have cov: "\<forall>j. 0 \<le> j \<and> j < ?C \<longrightarrow>
          (\<exists>!i. i < length ?ranges \<and> int i * P \<le> j
                \<and> j < int i * P + indexedChildrenCount (?ranges ! i))"
  proof (intro allI impI)
    fix j assume j: "0 \<le> j \<and> j < ?C"
    then have "\<exists>!i. i < ?N \<and> int i * P \<le> j
            \<and> j < (if int i * P + P > ?C then ?C else int i * P + P)"
      using block_cover [OF P, of j ?C] by simp
    then show "\<exists>!i. i < length ?ranges \<and> int i * P \<le> j
                \<and> j < int i * P + indexedChildrenCount (?ranges ! i)"
      by (simp add: rangeElement_sel cong: conj_cong)
  qed
  from gc ix nc len st cnt cov show ?thesis by blast
qed

theorem getChildren_range_split_witness:
  "(0::int) < 100 \<and> 100 < indexedChildrenCount exampleArr
   \<and> exampleService [] [] (notebook exampleArr) = Some (listKernel [] [])
   \<and> hasVariableProvider (listKernel [] [])
   \<and> getNamedChildren exampleArr (listKernel [] []) constructor = (Inr [], constructor)
   \<and> (\<exists>ranges.
      getChildren (exampleService [] []) 100 (Variable exampleArr) constructor
        = Some (Inr ([] @ ranges), constructor)
    \<and> getIndexedChildren 100 exampleArr (listKernel [] []) constructor = Some (Inr ranges, constructor)
    \<and> (\<forall>n \<in> set ([] :: INotebookVariableElement list). indexStart n = None)
    \<and> int (length ranges) = \<lceil>real_of_int (indexedChildrenCount exampleArr) / real_of_int 100\<rceil>
    \<and> (\<forall>i < length ranges. indexStart (ranges ! i) = Some (int i * 100))
    \<and> (\<forall>i < length ranges. indexedChildrenCount (ranges ! i) =
          (if Suc i = length ranges
           then (if 100 dvd indexedChildrenCount exampleArr then 100
                 else indexedChildrenCount exampleArr mod 100)
           else 100))
    \<and> (\<forall>j. 0 \<le> j \<and> j < indexedChildrenCount exampleArr \<longrightarrow>
          (\<exists>!i. i < length ranges \<and> int i * 100 \<le> j
                \<and> j < int i * 100 + indexedChildrenCount (ranges ! i))))"
proof -
  have h1: "(0::int) < 100" by simp
  have h2: "100 < indexedChildrenCount exampleArr"
    by (simp add: exampleArr_def createVariableElement_def exampleResult_def)
  have h3: "exampleService [] [] (notebook exampleArr) = Some (listKernel [] [])"
    by (simp add: exampleService_def)
  have h4: "hasVariableProvider (listKernel [] [])"
    by (simp add: listKernel_def)
  have h5: "getNamedChildren exampleArr (listKernel [] []) constructor = (Inr [], constructor)"
    by (simp add: getNamedChildren_def exampleArr_def createVariableElement_def exampleResult_def)
  note c = getChildren_range_split
      [of 100 exampleArr "exampleService [] []" "listKernel [] []" constructor "[]" constructor,
       OF h1 h2 h3 h4 h5]
  show ?thesis
    by (intro conjI) (rule h1 h2 h3 h4 h5 c)+
qed

subsection \<open>The fields of a range node\<close>

text \<open>
  C8. For a positive page size \<open>P\<close> and a node with more than \<open>P\<close> indexed children,
  \<open>getIndexedChildren\<close> returns at least one range node, and every range node it
  returns stands for a block \<open>[start, end)\<close> of the collection, \<open>end\<close> being the
  smaller of \<open>start + P\<close> and the count: its \<open>indexStart\<close> is \<open>start\<close>, its
  \<open>indexedChildrenCount\<close> is \<open>end - start\<close>, it has no named children, its value is
  empty, its name is \<open>[start..end-1]\<close> and its identifier is the identifier of the
  parent followed by \<open>start\<close>.
\<close>

theorem range_node_fields:
  assumes "0 < P" and "P < indexedChildrenCount parent"
  shows "\<exists>ranges. getIndexedChildren P parent k w = Some (Inr ranges, w) \<and> ranges \<noteq> []
    \<and> (\<forall>r \<in> set ranges. \<exists>start end.
          0 \<le> start \<and> start < end \<and> end \<le> indexedChildrenCount parent
        \<and> end = min (start + P) (indexedChildrenCount parent)
        \<and> indexStart r = Some start
        \<and> indexedChildrenCount r = end - start
        \<and> \<not> hasNamedChildren r
        \<and> value_str r = ''''
        \<and> name r = ''['' @ numberToString start @ ''..'' @ numberToString (end - 1) @ '']''
        \<and> id_str r = id_str parent @ numberToString start)"
proof -
  let ?N = "nat ((indexedChildrenCount parent + P - 1) div P)"
  let ?ranges = "map (\<lambda>i. rangeElement P parent (int i * P)) [0..<?N]"
  have g: "getIndexedChildren P parent k w = Some (Inr ?ranges, w)"
    using assms by (rule getIndexedChildren_ranges)
  have ne: "?ranges \<noteq> []"
    using blocks_positive [OF assms] by simp
  have "\<forall>r \<in> set ?ranges. \<exists>start end.
          0 \<le> start \<and> start < end \<and> end \<le> indexedChildrenCount parent
        \<and> end = min (start + P) (indexedChildrenCount parent)
        \<and> indexStart r = Some start
        \<and> indexedChildrenCount r = end - start
        \<and> \<not> hasNamedChildren r
        \<and> value_str r = ''''
        \<and> name r = ''['' @ numberToString start @ ''..'' @ numberToString (end - 1) @ '']''
        \<and> id_str r = id_str parent @ numberToString start"
  proof
    fix r assume "r \<in> set ?ranges"
    then obtain i where i: "i < ?N" and r: "r = rangeElement P parent (int i * P)" by auto
    show "\<exists>start end.
          0 \<le> start \<and> start < end \<and> end \<le> indexedChildrenCount parent
        \<and> end = min (start + P) (indexedChildrenCount parent)
        \<and> indexStart r = Some start
        \<and> indexedChildrenCount r = end - start
        \<and> \<not> hasNamedChildren r
        \<and> value_str r = ''''
        \<and> name r = ''['' @ numberToString start @ ''..'' @ numberToString (end - 1) @ '']''
        \<and> id_str r = id_str parent @ numberToString start"
      unfolding r by (rule range_element_fields [OF assms(1) i])
  qed
  with g ne show ?thesis by blast
qed

theorem range_node_fields_witness:
  "(0::int) < 100 \<and> 100 < indexedChildrenCount exampleArr
   \<and> (\<exists>ranges. getIndexedChildren 100 exampleArr (listKernel [] []) constructor
          = Some (Inr ranges, constructor) \<and> ranges \<noteq> []
    \<and> (\<forall>r \<in> set ranges. \<exists>start end.
          0 \<le> start \<and> start < end \<and> end \<le> indexedChildrenCount exampleArr
        \<and> end = min (start + 100) (indexedChildrenCount exampleArr)
        \<and> indexStart r = Some start
        \<and> indexedChildrenCount r = end - start
        \<and> \<not> hasNamedChildren r
        \<and> value_str r = ''''
        \<and> name r = ''['' @ numberToString start @ ''..'' @ numberToString (end - 1) @ '']''
        \<and> id_str r = id_str exampleArr @ numberToString start))"
proof -
  have h1: "(0::int) < 100" by simp
  have h2: "100 < indexedChildrenCount exampleArr"
    by (simp add: exampleArr_def createVariableElement_def exampleResult_def)
  note c = range_node_fields [of 100 exampleArr "listKernel [] []" constructor, OF h1 h2]
  show ?thesis
    by (intro conjI) (rule h1 h2 c)+
qed

text \<open>The example of the spec: 250 indexed children of the variable with handle 8, in
  pages of 100.\<close>

lemma example_ranges:
  "getIndexedChildren 100 exampleArr (listKernel [] []) constructor =
     Some (Inr [
       \<lparr>id_str = ''80'', extHostId = 8, name = ''[0..99]'', value_str = '''', type_str = None,
        indexedChildrenCount = 100, indexStart = Some 0, hasNamedChildren = False,
        notebook = exampleNotebook\<rparr>,
       \<lparr>id_str = ''8100'', extHostId = 8, name = ''[100..199]'', value_str = '''', type_str = None,
        indexedChildrenCount = 100, indexStart = Some 100, hasNamedChildren = False,
        notebook = exampleNotebook\<rparr>,
       \<lparr>id_str = ''8200'', extHostId = 8, name = ''[200..249]'', value_str = '''', type_str = None,
        indexedChildrenCount = 50, indexStart = Some 200, hasNamedChildren = False,
        notebook = exampleNotebook\<rparr>], constructor)"
  by code_simp

lemma example_root:
  "getChildren (exampleService [exampleResult 7 False 0, exampleResult 8 False 250] []) 100
      (Scope exampleNotebook) constructor =
     Some (Inr [createVariableElement (exampleResult 7 False 0) exampleNotebook, exampleArr],
           constructor\<lparr>trace :=
             [ProvideVariables ''notebook'' None named 0 (token constructor), Next, Next, Next]\<rparr>)"
  by code_simp

subsection \<open>A page of indexed children\<close>

text \<open>
  C2, as the spec states it, bounds what \<open>getChildren\<close> returns by the page size. A node
  with one indexed child that also has named children is a counterexample with page size
  1: \<open>getChildren\<close> returns the named child and the indexed child, two nodes.
\<close>

theorem getChildren_more_than_a_page:
  "0 < indexedChildrenCount exampleNode \<and> indexedChildrenCount exampleNode \<le> 1
   \<and> getChildren (exampleService [exampleResult 7 False 0] [exampleResult 9 False 0]) 1
        (Variable exampleNode) constructor
      = Some (Inr [createVariableElement (exampleResult 7 False 0) exampleNotebook,
                   createVariableElement (exampleResult 9 False 0) exampleNotebook],
              constructor\<lparr>trace :=
                [ProvideVariables ''notebook'' (Some 8) named 0 (token constructor), Next, Next,
                 ProvideVariables ''notebook'' (Some 8) indexed 0 (token constructor), Next]\<rparr>)
   \<and> \<not> int (length [createVariableElement (exampleResult 7 False 0) exampleNotebook,
                   createVariableElement (exampleResult 9 False 0) exampleNotebook]) \<le> 1"
  by (simp add: exampleNode_def exampleService_def listKernel_def exampleResult_def
      exampleNotebook_def createVariableElement_def getChildren_def getVariables_def
      getNamedChildren_def appendIndexedChildren_def getIndexedChildren_def
      constructor_def token_def new_CancellationTokenSource_def Let_def)

text \<open>
  C2, amended. Let a node have \<open>0 < C \<le> P\<close> indexed children, let a kernel with a
  variable provider be selected, and let the query for the named children, if any, have
  delivered \<open>children\<close> and left the world in \<open>w1\<close>. Then \<open>getChildren\<close> issues one more
  query, in indexed mode, at the node's \<open>indexStart\<close> (0 when it is absent), and pulls its
  sequence \<open>p \<le> P\<close> times, however long the sequence is. When it returns normally it
  returns \<open>children\<close> followed by at most \<open>P\<close> nodes: the first \<open>P\<close> elements of the
  provider sequence (all of them when there are fewer), wrapped, in provider order. It
  returns normally when the sequence does not fail.
\<close>

theorem getChildren_indexed_page:
  assumes "0 < indexedChildrenCount parent" and "indexedChildrenCount parent \<le> P"
    and "svc (notebook parent) = Some k" and "hasVariableProvider k"
    and "getNamedChildren parent k w = (Inr children, w1)"
  shows "\<exists>r p.
      getChildren svc P (Variable parent) w =
        Some (r, w1\<lparr>trace := trace w1
           @ ProvideVariables (uri (notebook parent)) (Some (extHostId parent)) indexed
               (case indexStart parent of None \<Rightarrow> 0 | Some i \<Rightarrow> i) (token w1)
           # replicate p Next\<rparr>)
    \<and> p \<le> nat P
    \<and> (\<forall>cs. r = Inr cs \<longrightarrow>
          (\<exists>ixs. cs = children @ ixs \<and> int (length ixs) \<le> P
             \<and> ixs = map (\<lambda>v. createVariableElement v (notebook parent))
                 (take (nat P) (emitted (provideVariables k (uri (notebook parent))
                    (Some (extHostId parent)) indexed
                    (case indexStart parent of None \<Rightarrow> 0 | Some i \<Rightarrow> i) (token w1))))))
    \<and> (rejection (provideVariables k (uri (notebook parent))
               (Some (extHostId parent)) indexed
               (case indexStart parent of None \<Rightarrow> 0 | Some i \<Rightarrow> i) (token w1)) = None
         \<longrightarrow> (\<exists>cs. r = Inr cs))"
  using assms by (rule getChildren_direct)

theorem getChildren_indexed_page_witness:
  "0 < indexedChildrenCount exampleNode \<and> indexedChildrenCount exampleNode \<le> 1
   \<and> exampleService [exampleResult 7 False 0] [exampleResult 9 False 0] (notebook exampleNode)
       = Some (listKernel [exampleResult 7 False 0] [exampleResult 9 False 0])
   \<and> hasVariableProvider (listKernel [exampleResult 7 False 0] [exampleResult 9 False 0])
   \<and> getNamedChildren exampleNode (listKernel [exampleResult 7 False 0] [exampleResult 9 False 0])
         constructor
       = (Inr [createVariableElement (exampleResult 7 False 0) exampleNotebook],
          constructor\<lparr>trace :=
            [ProvideVariables ''notebook'' (Some 8) named 0 (token constructor), Next, Next]\<rparr>)
   \<and> (\<exists>r p.
      getChildren (exampleService [exampleResult 7 False 0] [exampleResult 9 False 0]) 1
          (Variable exampleNode) constructor =
        Some (r, (constructor\<lparr>trace :=
            [ProvideVariables ''notebook'' (Some 8) named 0 (token constructor), Next, Next]\<rparr>)
          \<lparr>trace := trace (constructor\<lparr>trace :=
            [ProvideVariables ''notebook'' (Some 8) named 0 (token constructor), Next, Next]\<rparr>)
           @ ProvideVariables (uri (notebook exampleNode)) (Some (extHostId exampleNode)) indexed
               (case indexStart exampleNode of None \<Rightarrow> 0 | Some i \<Rightarrow> i)
               (token (constructor\<lparr>trace :=
            [ProvideVariables ''notebook'' (Some 8) named 0 (token constructor), Next, Next]\<rparr>))
           # replicate p Next\<rparr>)
    \<and> p \<le> nat 1
    \<and> (\<forall>cs. r = Inr cs \<longrightarrow>
          (\<exists>ixs. cs = [createVariableElement (exampleResult 7 False 0) exampleNotebook] @ ixs
             \<and> int (length ixs) \<le> 1
             \<and> ixs = map (\<lambda>v. createVariableElement v (notebook exampleNode))
                 (take (nat 1) (emitted (provideVariables
                    (listKernel [exampleResult 7 False 0] [exampleResult 9 False 0])
                    (uri (notebook exampleNode))
                    (Some (extHostId exampleNode)) indexed
                    (case indexStart exampleNode of None \<Rightarrow> 0 | Some i \<Rightarrow> i)
                    (token (constructor\<lparr>trace :=
            [ProvideVariables ''notebook'' (Some 8) named 0 (token constructor), Next, Next]\<rparr>)))))))
    \<and> (rejection (provideVariables
               (listKernel [exampleResult 7 False 0] [exampleResult 9 False 0])
               (uri (notebook exampleNode))
               (Some (extHostId exampleNode)) indexed
               (case indexStart exampleNode of None \<Rightarrow> 0 | Some i \<Rightarrow> i)
               (token (constructor\<lparr>trace :=
            [ProvideVariables ''notebook'' (Some 8) named 0 (token constructor), Next, Next]\<rparr>))) = None
         \<longrightarrow> (\<exists>cs. r = Inr cs)))"
proof -
  have h1: "0 < indexedChildrenCount exampleNode"
    by (simp add: exampleNode_def createVariableElement_def exampleResult_def)
  have h2: "indexedChildrenCount exampleNode \<le> 1"
    by (simp add: exampleNode_def createVariableElement_def exampleResult_def)
  have h3: "exampleService [exampleResult 7 False 0] [exampleResult 9 False 0] (notebook exampleNode)
       = Some (listKernel [exampleResult 7 False 0] [exampleResult 9 False 0])"
    by (simp add: exampleService_def)
  have h4: "hasVariableProvider (listKernel [exampleResult 7 False 0] [exampleResult 9 False 0])"
    by (simp add: listKernel_def)
  have h5: "getNamedChildren exampleNode (listKernel [exampleResult 7 False 0] [exampleResult 9 False 0])
         constructor
       = (Inr [createVariableElement (exampleResult 7 False 0) exampleNotebook],
          constructor\<lparr>trace :=
            [ProvideVariables ''notebook'' (Some 8) named 0 (token constructor), Next, Next]\<rparr>)"
    by (simp add: getNamedChildren_def exampleNode_def createVariableElement_def exampleResult_def
        listKernel_def exampleNotebook_def constructor_def token_def
        new_CancellationTokenSource_def Let_def)
  note c = getChildren_indexed_page
      [where P = 1 and parent = exampleNode
         and svc = "exampleService [exampleResult 7 False 0] [exampleResult 9 False 0]"
         and k = "listKernel [exampleResult 7 False 0] [exampleResult 9 False 0]"
         and w = constructor, OF h1 h2 h3 h4 h5]
  show ?thesis
    by (intro conjI) (rule h1 h2 h3 h4 h5 c)+
qed

subsection \<open>Named children come first\<close>

text \<open>
  C4. Let a node have named children and indexed children, let a kernel with a variable
  provider be selected and the page size be positive, and let \<open>getChildren\<close> return the
  nodes \<open>cs\<close>. Then \<open>cs\<close> is the named children, wrapped in the order in which the
  provider emitted them, followed by what \<open>getIndexedChildren\<close> returns in the state
  the named query left. For a large collection that is a nonempty list of range nodes
  whose \<open>i\<close>-th start offset is \<open>i * P\<close> (ascending); for a small one it is the first
  \<open>P\<close> elements of the indexed provider sequence, wrapped, in provider order.
\<close>

theorem named_before_indexed:
  assumes "0 < P" and "hasNamedChildren parent" and "0 < indexedChildrenCount parent"
    and "svc (notebook parent) = Some k" and "hasVariableProvider k"
    and "getChildren svc P (Variable parent) w = Some (Inr cs, w')"
  shows "\<exists>w1 ixs.
      getNamedChildren parent k w =
        (Inr (map (\<lambda>v. createVariableElement v (notebook parent))
               (emitted (provideVariables k (uri (notebook parent)) (Some (extHostId parent))
                  named 0 (token w)))), w1)
    \<and> getIndexedChildren P parent k w1 = Some (Inr ixs, w')
    \<and> cs = map (\<lambda>v. createVariableElement v (notebook parent))
               (emitted (provideVariables k (uri (notebook parent)) (Some (extHostId parent))
                  named 0 (token w))) @ ixs
    \<and> (P < indexedChildrenCount parent \<longrightarrow>
          ixs \<noteq> [] \<and> (\<forall>i < length ixs. indexStart (ixs ! i) = Some (int i * P)))
    \<and> (indexedChildrenCount parent \<le> P \<longrightarrow>
          ixs = map (\<lambda>v. createVariableElement v (notebook parent))
                 (take (nat P) (emitted (provideVariables k (uri (notebook parent))
                    (Some (extHostId parent)) indexed
                    (case indexStart parent of None \<Rightarrow> 0 | Some i \<Rightarrow> i) (token w1)))))"
proof -
  let ?named = "map (\<lambda>v. createVariableElement v (notebook parent))
               (emitted (provideVariables k (uri (notebook parent)) (Some (extHostId parent))
                  named 0 (token w)))"
  have P: "0 < P" by fact
  have C: "0 < indexedChildrenCount parent" by fact
  from assms(6) have gv: "getVariables svc P parent w = Some (Inr cs, w')"
    by (simp add: getChildren_def)
  from getVariables_parts [where svc = svc and parent = parent and k = k, OF assms(4,5) gv]
  obtain children w1 where n: "getNamedChildren parent k w = (Inr children, w1)"
    and a: "appendIndexedChildren P parent k children w1 = Some (Inr cs, w')" by blast
  have ch: "children = ?named"
    using n assms(2) by (simp add: getNamedChildren_closed split: option.splits)
  from appendIndexedChildren_parts [OF a] C
  obtain ixs where ix: "getIndexedChildren P parent k w1 = Some (Inr ixs, w')"
    and cs: "cs = children @ ixs" by auto
  have big: "P < indexedChildrenCount parent \<longrightarrow>
          ixs \<noteq> [] \<and> (\<forall>i < length ixs. indexStart (ixs ! i) = Some (int i * P))"
  proof
    assume lt: "P < indexedChildrenCount parent"
    from ix getIndexedChildren_ranges [OF P lt, of k w1]
    have e: "ixs = map (\<lambda>i. rangeElement P parent (int i * P))
        [0..<nat ((indexedChildrenCount parent + P - 1) div P)]" by simp
    show "ixs \<noteq> [] \<and> (\<forall>i < length ixs. indexStart (ixs ! i) = Some (int i * P))"
      unfolding e using blocks_positive [OF P lt] by (simp add: rangeElement_sel)
  qed
  have small: "indexedChildrenCount parent \<le> P \<longrightarrow>
          ixs = map (\<lambda>v. createVariableElement v (notebook parent))
                 (take (nat P) (emitted (provideVariables k (uri (notebook parent))
                    (Some (extHostId parent)) indexed
                    (case indexStart parent of None \<Rightarrow> 0 | Some i \<Rightarrow> i) (token w1))))"
  proof
    assume le: "indexedChildrenCount parent \<le> P"
    from getIndexedChildren_direct [OF C le, where k = k and w = w1]
    obtain r p where all: "getIndexedChildren P parent k w1 =
        Some (r, w1\<lparr>trace := trace w1
           @ ProvideVariables (uri (notebook parent)) (Some (extHostId parent)) indexed
               (case indexStart parent of None \<Rightarrow> 0 | Some i \<Rightarrow> i) (token w1)
           # replicate p Next\<rparr>)
    \<and> p \<le> nat P
    \<and> p \<le> Suc (length (emitted (provideVariables k (uri (notebook parent))
               (Some (extHostId parent)) indexed
               (case indexStart parent of None \<Rightarrow> 0 | Some i \<Rightarrow> i) (token w1))))
    \<and> (\<forall>cs. r = Inr cs \<longrightarrow>
          cs = map (\<lambda>v. createVariableElement v (notebook parent))
                 (take (nat P) (emitted (provideVariables k (uri (notebook parent))
                    (Some (extHostId parent)) indexed
                    (case indexStart parent of None \<Rightarrow> 0 | Some i \<Rightarrow> i) (token w1)))))
    \<and> (rejection (provideVariables k (uri (notebook parent))
               (Some (extHostId parent)) indexed
               (case indexStart parent of None \<Rightarrow> 0 | Some i \<Rightarrow> i) (token w1)) = None
         \<longrightarrow> (\<exists>cs. r = Inr cs))"
      by (elim exE)
    from all have g0: "getIndexedChildren P parent k w1 =
        Some (r, w1\<lparr>trace := trace w1
           @ ProvideVariables (uri (notebook parent)) (Some (extHostId parent)) indexed
               (case indexStart parent of None \<Rightarrow> 0 | Some i \<Rightarrow> i) (token w1)
           # replicate p Next\<rparr>)"
      by (rule conjunct1)
    with ix have r: "r = Inr ixs" by simp
    from all have ok: "\<forall>cs. r = Inr cs \<longrightarrow>
          cs = map (\<lambda>v. createVariableElement v (notebook parent))
                 (take (nat P) (emitted (provideVariables k (uri (notebook parent))
                    (Some (extHostId parent)) indexed
                    (case indexStart parent of None \<Rightarrow> 0 | Some i \<Rightarrow> i) (token w1))))"
      by (rule conjunct1 [OF conjunct2 [OF conjunct2 [OF conjunct2]]])
    with r show "ixs = map (\<lambda>v. createVariableElement v (notebook parent))
                 (take (nat P) (emitted (provideVariables k (uri (notebook parent))
                    (Some (extHostId parent)) indexed
                    (case indexStart parent of None \<Rightarrow> 0 | Some i \<Rightarrow> i) (token w1))))"
      by blast
  qed
  have n': "getNamedChildren parent k w = (Inr ?named, w1)" using n ch by simp
  have cs': "cs = ?named @ ixs" using cs ch by simp
  show ?thesis
    by (rule exI [of _ w1], rule exI [of _ ixs]) (intro conjI n' ix cs' big small)
qed

theorem named_before_indexed_witness:
  "(0::int) < 100 \<and> hasNamedChildren exampleBoth \<and> 0 < indexedChildrenCount exampleBoth
   \<and> exampleService [exampleResult 7 False 0] [] (notebook exampleBoth)
       = Some (listKernel [exampleResult 7 False 0] [])
   \<and> hasVariableProvider (listKernel [exampleResult 7 False 0] [])
   \<and> getChildren (exampleService [exampleResult 7 False 0] []) 100 (Variable exampleBoth) constructor
       = Some (Inr [createVariableElement (exampleResult 7 False 0) exampleNotebook, rangeElement 100 exampleBoth 0, rangeElement 100 exampleBoth 100, rangeElement 100 exampleBoth 200],
               (constructor\<lparr>trace := [ProvideVariables ''notebook'' (Some 8) named 0 (token constructor), Next, Next]\<rparr>))
   \<and> (\<exists>w1 ixs.
      getNamedChildren exampleBoth (listKernel [exampleResult 7 False 0] []) constructor =
        (Inr (map (\<lambda>v. createVariableElement v (notebook exampleBoth))
               (emitted (provideVariables (listKernel [exampleResult 7 False 0] []) (uri (notebook exampleBoth)) (Some (extHostId exampleBoth))
                  named 0 (token constructor)))), w1)
    \<and> getIndexedChildren 100 exampleBoth (listKernel [exampleResult 7 False 0] []) w1 = Some (Inr ixs, (constructor\<lparr>trace := [ProvideVariables ''notebook'' (Some 8) named 0 (token constructor), Next, Next]\<rparr>))
    \<and> [createVariableElement (exampleResult 7 False 0) exampleNotebook, rangeElement 100 exampleBoth 0, rangeElement 100 exampleBoth 100, rangeElement 100 exampleBoth 200] = map (\<lambda>v. createVariableElement v (notebook exampleBoth))
               (emitted (provideVariables (listKernel [exampleResult 7 False 0] []) (uri (notebook exampleBoth)) (Some (extHostId exampleBoth))
                  named 0 (token constructor))) @ ixs
    \<and> (100 < indexedChildrenCount exampleBoth \<longrightarrow>
          ixs \<noteq> [] \<and> (\<forall>i < length ixs. indexStart (ixs ! i) = Some (int i * 100)))
    \<and> (indexedChildrenCount exampleBoth \<le> 100 \<longrightarrow>
          ixs = map (\<lambda>v. createVariableElement v (notebook exampleBoth))
                 (take (nat 100) (emitted (provideVariables (listKernel [exampleResult 7 False 0] []) (uri (notebook exampleBoth))
                    (Some (extHostId exampleBoth)) indexed
                    (case indexStart exampleBoth of None \<Rightarrow> 0 | Some i \<Rightarrow> i) (token w1))))))"
proof -
  have h1: "(0::int) < 100" by simp
  have h2: "hasNamedChildren exampleBoth"
    by (simp add: exampleBoth_def createVariableElement_def exampleResult_def)
  have h3: "0 < indexedChildrenCount exampleBoth"
    by (simp add: exampleBoth_def createVariableElement_def exampleResult_def)
  have h4: "exampleService [exampleResult 7 False 0] [] (notebook exampleBoth)
       = Some (listKernel [exampleResult 7 False 0] [])"
    by (simp add: exampleService_def)
  have h5: "hasVariableProvider (listKernel [exampleResult 7 False 0] [])"
    by (simp add: listKernel_def)
  have h6: "getChildren (exampleService [exampleResult 7 False 0] []) 100 (Variable exampleBoth) constructor
       = Some (Inr [createVariableElement (exampleResult 7 False 0) exampleNotebook, rangeElement 100 exampleBoth 0, rangeElement 100 exampleBoth 100, rangeElement 100 exampleBoth 200],
               (constructor\<lparr>trace := [ProvideVariables ''notebook'' (Some 8) named 0 (token constructor), Next, Next]\<rparr>))"
    by code_simp
  note c = named_before_indexed
      [where P = 100 and parent = exampleBoth and svc = "exampleService [exampleResult 7 False 0] []"
         and k = "listKernel [exampleResult 7 False 0] []" and w = constructor, OF h1 h2 h3 h4 h5 h6]
  show ?thesis
    by (intro conjI) (rule h1 h2 h3 h4 h5 h6 c)+
qed

subsection \<open>Which nodes carry a start offset\<close>

text \<open>
  C9. For a positive page size, every node that \<open>getChildren\<close> returns for a scope or a
  node carries \<open>indexStart\<close> exactly when it is a range node synthesized for a block of
  a parent with more than \<open>P\<close> indexed children, and then it stands for fewer
  children than the parent has (a partial range); it carries no \<open>indexStart\<close> exactly
  when it wraps a provider result.
\<close>

theorem indexStart_iff_range_node:
  assumes "0 < P" and "getChildren svc P el w = Some (Inr cs, w')"
  shows "\<forall>n \<in> set cs.
      ((indexStart n \<noteq> None) =
         (\<exists>parent start. el = Variable parent \<and> P < indexedChildrenCount parent
            \<and> 0 \<le> start \<and> start < indexedChildrenCount parent
            \<and> n = rangeElement P parent start
            \<and> indexedChildrenCount n < indexedChildrenCount parent))
    \<and> ((indexStart n = None) = (\<exists>v. n = createVariableElement v (notebookOf el)))"
proof
  fix n assume n: "n \<in> set cs"
  let ?range = "\<exists>parent start. el = Variable parent \<and> P < indexedChildrenCount parent
            \<and> 0 \<le> start \<and> start < indexedChildrenCount parent
            \<and> n = rangeElement P parent start
            \<and> indexedChildrenCount n < indexedChildrenCount parent"
  let ?wrapped = "\<exists>v. n = createVariableElement v (notebookOf el)"
  from getChildren_nodes [OF assms] n have either: "?wrapped \<or> ?range" by blast
  have w: "?wrapped \<longrightarrow> indexStart n = None"
    by (auto simp: createVariableElement_def)
  have r: "?range \<longrightarrow> indexStart n \<noteq> None"
    by (auto simp: rangeElement_sel)
  from either w r show "((indexStart n \<noteq> None) = ?range) \<and> ((indexStart n = None) = ?wrapped)"
    by argo
qed

theorem indexStart_iff_range_node_witness:
  "(0::int) < 100
   \<and> getChildren (exampleService [exampleResult 7 False 0] []) 100 (Variable exampleBoth) constructor
       = Some (Inr [createVariableElement (exampleResult 7 False 0) exampleNotebook, rangeElement 100 exampleBoth 0, rangeElement 100 exampleBoth 100, rangeElement 100 exampleBoth 200],
               (constructor\<lparr>trace := [ProvideVariables ''notebook'' (Some 8) named 0 (token constructor), Next, Next]\<rparr>))
   \<and> (createVariableElement (exampleResult 7 False 0) exampleNotebook)
       \<in> set [createVariableElement (exampleResult 7 False 0) exampleNotebook, rangeElement 100 exampleBoth 0, rangeElement 100 exampleBoth 100, rangeElement 100 exampleBoth 200]
   \<and> ((indexStart (createVariableElement (exampleResult 7 False 0) exampleNotebook) \<noteq> None) =
         (\<exists>parent start. Variable exampleBoth = Variable parent \<and> 100 < indexedChildrenCount parent
            \<and> 0 \<le> start \<and> start < indexedChildrenCount parent
            \<and> (createVariableElement (exampleResult 7 False 0) exampleNotebook) = rangeElement 100 parent start
            \<and> indexedChildrenCount (createVariableElement (exampleResult 7 False 0) exampleNotebook) < indexedChildrenCount parent))
    \<and> ((indexStart (createVariableElement (exampleResult 7 False 0) exampleNotebook) = None)
         = (\<exists>v. (createVariableElement (exampleResult 7 False 0) exampleNotebook) = createVariableElement v (notebookOf (Variable exampleBoth))))
   \<and> (rangeElement 100 exampleBoth 200)
       \<in> set [createVariableElement (exampleResult 7 False 0) exampleNotebook, rangeElement 100 exampleBoth 0, rangeElement 100 exampleBoth 100, rangeElement 100 exampleBoth 200]
   \<and> ((indexStart (rangeElement 100 exampleBoth 200) \<noteq> None) =
         (\<exists>parent start. Variable exampleBoth = Variable parent \<and> 100 < indexedChildrenCount parent
            \<and> 0 \<le> start \<and> start < indexedChildrenCount parent
            \<and> (rangeElement 100 exampleBoth 200) = rangeElement 100 parent start
            \<and> indexedChildrenCount (rangeElement 100 exampleBoth 200) < indexedChildrenCount parent))
    \<and> ((indexStart (rangeElement 100 exampleBoth 200) = None)
         = (\<exists>v. (rangeElement 100 exampleBoth 200) = createVariableElement v (notebookOf (Variable exampleBoth))))"
proof -
  have h1: "(0::int) < 100" by simp
  have h2: "getChildren (exampleService [exampleResult 7 False 0] []) 100 (Variable exampleBoth) constructor
       = Some (Inr [createVariableElement (exampleResult 7 False 0) exampleNotebook, rangeElement 100 exampleBoth 0, rangeElement 100 exampleBoth 100, rangeElement 100 exampleBoth 200],
               (constructor\<lparr>trace := [ProvideVariables ''notebook'' (Some 8) named 0 (token constructor), Next, Next]\<rparr>))"
    by code_simp
  have m1: "(createVariableElement (exampleResult 7 False 0) exampleNotebook)
       \<in> set [createVariableElement (exampleResult 7 False 0) exampleNotebook, rangeElement 100 exampleBoth 0, rangeElement 100 exampleBoth 100, rangeElement 100 exampleBoth 200]"
    by simp
  have m2: "(rangeElement 100 exampleBoth 200)
       \<in> set [createVariableElement (exampleResult 7 False 0) exampleNotebook, rangeElement 100 exampleBoth 0, rangeElement 100 exampleBoth 100, rangeElement 100 exampleBoth 200]"
    by simp
  note c = indexStart_iff_range_node
      [where P = 100 and svc = "exampleService [exampleResult 7 False 0] []"
         and el = "Variable exampleBoth" and w = constructor, OF h1 h2]
  note c1 = bspec [OF c m1] and c2 = bspec [OF c m2]
  show ?thesis
    by (intro conjI) (rule h1 h2 m1 m2 conjunct1 [OF c1] conjunct2 [OF c1]
        conjunct1 [OF c2] conjunct2 [OF c2])+
qed

subsection \<open>Expanding a range node\<close>

text \<open>
  C10. For a positive page size \<open>P\<close> and a node with more than \<open>P\<close> indexed children,
  every range node has between 1 and \<open>P\<close> indexed children and the \<open>extHostId\<close> of the
  parent, so \<open>hasChildren\<close> holds of it. Expanding it, in any state, takes the branch of
  the indexed query: \<open>getChildren\<close> issues one provider query, in indexed mode, for the
  parent's handle at the range node's start offset, pulls at most \<open>P\<close> times, and the
  nodes it returns carry no start offset: none of them is a range node, so range
  subdivision stops one level below the collection node.
\<close>

theorem range_node_expansion:
  assumes "0 < P" and "P < indexedChildrenCount parent"
    and "svc (notebook parent) = Some k" and "hasVariableProvider k"
  shows "\<exists>ranges. getIndexedChildren P parent k w = Some (Inr ranges, w) \<and> ranges \<noteq> []
    \<and> (\<forall>r \<in> set ranges.
          0 < indexedChildrenCount r \<and> indexedChildrenCount r \<le> P
        \<and> extHostId r = extHostId parent
        \<and> hasChildren (Variable r)
        \<and> (\<forall>w'. \<exists>start res p.
              indexStart r = Some start
            \<and> getChildren svc P (Variable r) w' =
                Some (res, w'\<lparr>trace := trace w'
                   @ ProvideVariables (uri (notebook parent)) (Some (extHostId parent)) indexed
                       start (token w')
                   # replicate p Next\<rparr>)
            \<and> p \<le> nat P
            \<and> (\<forall>cs. res = Inr cs \<longrightarrow> (\<forall>c \<in> set cs. indexStart c = None))))"
proof -
  let ?N = "nat ((indexedChildrenCount parent + P - 1) div P)"
  let ?ranges = "map (\<lambda>i. rangeElement P parent (int i * P)) [0..<?N]"
  have P: "0 < P" by fact
  have g: "getIndexedChildren P parent k w = Some (Inr ?ranges, w)"
    using assms(1,2) by (rule getIndexedChildren_ranges)
  have ne: "?ranges \<noteq> []"
    using blocks_positive [OF assms(1,2)] by simp
  have each: "\<forall>r \<in> set ?ranges.
          0 < indexedChildrenCount r \<and> indexedChildrenCount r \<le> P
        \<and> extHostId r = extHostId parent
        \<and> hasChildren (Variable r)
        \<and> (\<forall>w'. \<exists>start res p.
              indexStart r = Some start
            \<and> getChildren svc P (Variable r) w' =
                Some (res, w'\<lparr>trace := trace w'
                   @ ProvideVariables (uri (notebook parent)) (Some (extHostId parent)) indexed
                       start (token w')
                   # replicate p Next\<rparr>)
            \<and> p \<le> nat P
            \<and> (\<forall>cs. res = Inr cs \<longrightarrow> (\<forall>c \<in> set cs. indexStart c = None)))"
  proof
    fix r assume "r \<in> set ?ranges"
    then obtain i where i: "i < ?N" and r: "r = rangeElement P parent (int i * P)" by auto
    have pos: "0 < indexedChildrenCount r" and le: "indexedChildrenCount r \<le> P"
      unfolding r by (rule range_nodes_small [OF P i])+
    have ext: "extHostId r = extHostId parent" by (simp add: r rangeElement_sel)
    have nb: "notebook r = notebook parent" by (simp add: r rangeElement_sel)
    have st: "indexStart r = Some (int i * P)" by (simp add: r rangeElement_sel)
    have hc: "hasChildren (Variable r)" using pos by (simp add: hasChildren_def)
    have nn: "\<not> hasNamedChildren r" by (simp add: r rangeElement_sel)
    have svc: "svc (notebook r) = Some k" using assms(3) nb by simp
    have expand: "\<exists>start res p.
              indexStart r = Some start
            \<and> getChildren svc P (Variable r) w' =
                Some (res, w'\<lparr>trace := trace w'
                   @ ProvideVariables (uri (notebook parent)) (Some (extHostId parent)) indexed
                       start (token w')
                   # replicate p Next\<rparr>)
            \<and> p \<le> nat P
            \<and> (\<forall>cs. res = Inr cs \<longrightarrow> (\<forall>c \<in> set cs. indexStart c = None))" for w'
    proof -
      note d = getChildren_direct [where parent = r and P = P and svc = svc and k = k
          and w = w' and children = "[]" and ?w1.0 = w',
          OF pos le svc assms(4) getNamedChildren_none [OF nn]]
      from d obtain res p where all: "getChildren svc P (Variable r) w' =
        Some (res, w'\<lparr>trace := trace w'
           @ ProvideVariables (uri (notebook r)) (Some (extHostId r)) indexed
               (case indexStart r of None \<Rightarrow> 0 | Some i \<Rightarrow> i) (token w')
           # replicate p Next\<rparr>)
        \<and> p \<le> nat P
        \<and> (\<forall>cs. res = Inr cs \<longrightarrow>
          (\<exists>ixs. cs = [] @ ixs \<and> int (length ixs) \<le> P
             \<and> ixs = map (\<lambda>v. createVariableElement v (notebook r))
                 (take (nat P) (emitted (provideVariables k (uri (notebook r))
                    (Some (extHostId r)) indexed
                    (case indexStart r of None \<Rightarrow> 0 | Some i \<Rightarrow> i) (token w'))))))
        \<and> (rejection (provideVariables k (uri (notebook r))
               (Some (extHostId r)) indexed
               (case indexStart r of None \<Rightarrow> 0 | Some i \<Rightarrow> i) (token w')) = None
         \<longrightarrow> (\<exists>cs. res = Inr cs))"
        by (elim exE)
      from all have gc0: "getChildren svc P (Variable r) w' =
        Some (res, w'\<lparr>trace := trace w'
           @ ProvideVariables (uri (notebook r)) (Some (extHostId r)) indexed
               (case indexStart r of None \<Rightarrow> 0 | Some i \<Rightarrow> i) (token w')
           # replicate p Next\<rparr>)"
        by (rule conjunct1)
      have gc: "getChildren svc P (Variable r) w' =
        Some (res, w'\<lparr>trace := trace w'
           @ ProvideVariables (uri (notebook parent)) (Some (extHostId parent)) indexed
               (int i * P) (token w')
           # replicate p Next\<rparr>)"
        unfolding gc0 nb ext st by simp
      from all have p: "p \<le> nat P" by (rule conjunct1 [OF conjunct2])
      from all have ok: "\<forall>cs. res = Inr cs \<longrightarrow>
          (\<exists>ixs. cs = [] @ ixs \<and> int (length ixs) \<le> P
             \<and> ixs = map (\<lambda>v. createVariableElement v (notebook r))
                 (take (nat P) (emitted (provideVariables k (uri (notebook r))
                    (Some (extHostId r)) indexed
                    (case indexStart r of None \<Rightarrow> 0 | Some i \<Rightarrow> i) (token w')))))"
        by (rule conjunct1 [OF conjunct2 [OF conjunct2]])
      have wr: "\<forall>cs. res = Inr cs \<longrightarrow> (\<forall>c \<in> set cs. indexStart c = None)"
      proof (intro allI impI ballI)
        fix cs c assume "res = Inr cs" and c: "c \<in> set cs"
        with ok obtain vs where "cs = map (\<lambda>v. createVariableElement v (notebook r)) vs"
          by auto
        with c show "indexStart c = None" by (auto simp: createVariableElement_def)
      qed
      show ?thesis
        by (rule exI [of _ "int i * P"], rule exI [of _ res], rule exI [of _ p])
           (intro conjI st gc p wr)
    qed
    from pos le ext hc expand
    show "0 < indexedChildrenCount r \<and> indexedChildrenCount r \<le> P
        \<and> extHostId r = extHostId parent
        \<and> hasChildren (Variable r)
        \<and> (\<forall>w'. \<exists>start res p.
              indexStart r = Some start
            \<and> getChildren svc P (Variable r) w' =
                Some (res, w'\<lparr>trace := trace w'
                   @ ProvideVariables (uri (notebook parent)) (Some (extHostId parent)) indexed
                       start (token w')
                   # replicate p Next\<rparr>)
            \<and> p \<le> nat P
            \<and> (\<forall>cs. res = Inr cs \<longrightarrow> (\<forall>c \<in> set cs. indexStart c = None)))"
      by (intro conjI allI)
  qed
  show ?thesis
    by (rule exI [of _ ?ranges]) (intro conjI g ne each)
qed

theorem range_node_expansion_witness:
  "(0::int) < 100 \<and> 100 < indexedChildrenCount exampleArr
   \<and> exampleService [] [] (notebook exampleArr) = Some (listKernel [] [])
   \<and> hasVariableProvider (listKernel [] [])
   \<and> (\<exists>ranges. getIndexedChildren 100 exampleArr (listKernel [] []) constructor = Some (Inr ranges, constructor) \<and> ranges \<noteq> []
    \<and> (\<forall>r \<in> set ranges.
          0 < indexedChildrenCount r \<and> indexedChildrenCount r \<le> 100
        \<and> extHostId r = extHostId exampleArr
        \<and> hasChildren (Variable r)
        \<and> (\<forall>w'. \<exists>start res p.
              indexStart r = Some start
            \<and> getChildren (exampleService [] []) 100 (Variable r) w' =
                Some (res, w'\<lparr>trace := trace w'
                   @ ProvideVariables (uri (notebook exampleArr)) (Some (extHostId exampleArr)) indexed
                       start (token w')
                   # replicate p Next\<rparr>)
            \<and> p \<le> nat 100
            \<and> (\<forall>cs. res = Inr cs \<longrightarrow> (\<forall>c \<in> set cs. indexStart c = None)))))"
proof -
  have h1: "(0::int) < 100" by simp
  have h2: "100 < indexedChildrenCount exampleArr"
    by (simp add: exampleArr_def createVariableElement_def exampleResult_def)
  have h3: "exampleService [] [] (notebook exampleArr) = Some (listKernel [] [])"
    by (simp add: exampleService_def)
  have h4: "hasVariableProvider (listKernel [] [])"
    by (simp add: listKernel_def)
  note c = range_node_expansion
      [where P = 100 and parent = exampleArr and svc = "exampleService [] []"
         and k = "listKernel [] []" and w = constructor, OF h1 h2 h3 h4]
  show ?thesis
    by (intro conjI) (rule h1 h2 h3 h4 c)+
qed

subsection \<open>Cancellation\<close>

text \<open>
  C6. In a state whose field \<open>cancellationTokenSource\<close> refers to an allocated token
  source, \<open>cancel\<close> revokes and disposes that token source and installs a new one: the
  field refers to a reference that no token source had before, the token source there is
  new and live, and the token read from the field is not revoked. For a positive page
  size, a \<open>getChildren\<close> call after \<open>cancel\<close> hands that live token to every query it
  issues, leaves the token sources as they are, and, when the provider does not fail on
  a query carrying that token, returns normally.
\<close>

theorem cancel_then_getChildren:
  assumes "cancellationTokenSource w < length (store w)" and "0 < P"
    and "\<forall>nb k u h kd st. svc nb = Some k \<longrightarrow>
            rejection (provideVariables k u h kd st (token (cancel w))) = None"
  shows "cancelled (store (cancel w) ! cancellationTokenSource w)
    \<and> disposed (store (cancel w) ! cancellationTokenSource w)
    \<and> cancellationTokenSource (cancel w) = length (store w)
    \<and> store (cancel w) ! cancellationTokenSource (cancel w) = new_CancellationTokenSource
    \<and> \<not> cancelled new_CancellationTokenSource
    \<and> source_ref (token (cancel w)) = cancellationTokenSource (cancel w)
    \<and> \<not> isCancellationRequested (token (cancel w))
    \<and> (\<exists>cs evs. getChildren svc P el (cancel w)
            = Some (Inr cs, (cancel w)\<lparr>trace := trace (cancel w) @ evs\<rparr>)
          \<and> list_all (carries (token (cancel w))) evs)"
proof -
  let ?r = "cancellationTokenSource w"
  have old: "store (cancel w) ! ?r = dispose_source (cancel_source (store w ! ?r))"
    using cancel_old [OF assms(1)] by simp
  have a: "cancelled (store (cancel w) ! ?r)"
    by (simp add: old dispose_source_def cancel_source_def)
  have b: "disposed (store (cancel w) ! ?r)"
    by (simp add: old dispose_source_def cancel_source_def)
  have c: "cancellationTokenSource (cancel w) = length (store w)"
    by (rule cancel_fields)
  have d: "store (cancel w) ! cancellationTokenSource (cancel w) = new_CancellationTokenSource"
    by (simp add: cancel_fields)
  have e: "\<not> cancelled new_CancellationTokenSource"
    by (simp add: new_CancellationTokenSource_def)
  have f: "source_ref (token (cancel w)) = cancellationTokenSource (cancel w)"
    by (simp add: token_def)
  have g: "\<not> isCancellationRequested (token (cancel w))"
    by (simp add: token_cancel)
  from getChildren_effect [OF assms(2), of svc el "cancel w"]
  obtain r evs where gc: "getChildren svc P el (cancel w)
            = Some (r, (cancel w)\<lparr>trace := trace (cancel w) @ evs\<rparr>)"
    and cr: "list_all (carries (token (cancel w))) evs"
    and t: "(\<forall>nb k u h kd st. svc nb = Some k \<longrightarrow>
            rejection (provideVariables k u h kd st (token (cancel w))) = None)
          \<longrightarrow> (\<exists>cs. r = Inr cs)"
    by (elim exE conjE)
  from t assms(3) obtain cs where "r = Inr cs" by blast
  with gc cr have h: "\<exists>cs evs. getChildren svc P el (cancel w)
            = Some (Inr cs, (cancel w)\<lparr>trace := trace (cancel w) @ evs\<rparr>)
          \<and> list_all (carries (token (cancel w))) evs" by blast
  show ?thesis
    by (intro conjI a b c d e f g h)
qed

theorem cancel_then_getChildren_witness:
  "cancellationTokenSource constructor < length (store constructor) \<and> (0::int) < 100
   \<and> rejection (provideVariables (listKernel [] []) ''notebook'' None named 0
         (token (cancel constructor))) = None
   \<and> cancelled (store (cancel constructor) ! cancellationTokenSource constructor)
    \<and> disposed (store (cancel constructor) ! cancellationTokenSource constructor)
    \<and> cancellationTokenSource (cancel constructor) = length (store constructor)
    \<and> store (cancel constructor) ! cancellationTokenSource (cancel constructor) = new_CancellationTokenSource
    \<and> \<not> cancelled new_CancellationTokenSource
    \<and> source_ref (token (cancel constructor)) = cancellationTokenSource (cancel constructor)
    \<and> \<not> isCancellationRequested (token (cancel constructor))
    \<and> (\<exists>cs evs. getChildren (exampleService [] []) 100 (Scope exampleNotebook) (cancel constructor)
            = Some (Inr cs, (cancel constructor)\<lparr>trace := trace (cancel constructor) @ evs\<rparr>)
          \<and> list_all (carries (token (cancel constructor))) evs)"
proof -
  have h1: "cancellationTokenSource constructor < length (store constructor)"
    by (simp add: constructor_def)
  have h2: "(0::int) < 100" by simp
  have h3: "\<forall>nb k u h kd st. exampleService [] [] nb = Some k \<longrightarrow>
            rejection (provideVariables k u h kd st (token (cancel constructor))) = None"
    by (simp add: exampleService_def listKernel_def token_cancel
        split: VariablesRequestKind.splits)
  have h3': "rejection (provideVariables (listKernel [] []) ''notebook'' None named 0
         (token (cancel constructor))) = None"
    using h3 by (simp add: exampleService_def)
  note c = cancel_then_getChildren
      [where w = constructor and P = 100 and svc = "exampleService [] []"
         and el = "Scope exampleNotebook", OF h1 h2 h3]
  show ?thesis
    by (intro conjI) (rule h1 h2 h3' c [THEN conjunct1]
        c [THEN conjunct2, THEN conjunct1]
        c [THEN conjunct2, THEN conjunct2, THEN conjunct1]
        c [THEN conjunct2, THEN conjunct2, THEN conjunct2, THEN conjunct1]
        c [THEN conjunct2, THEN conjunct2, THEN conjunct2, THEN conjunct2, THEN conjunct1]
        c [THEN conjunct2, THEN conjunct2, THEN conjunct2, THEN conjunct2, THEN conjunct2,
           THEN conjunct1]
        c [THEN conjunct2, THEN conjunct2, THEN conjunct2, THEN conjunct2, THEN conjunct2,
           THEN conjunct2, THEN conjunct1]
        c [THEN conjunct2, THEN conjunct2, THEN conjunct2, THEN conjunct2, THEN conjunct2,
           THEN conjunct2, THEN conjunct2])+
qed

text \<open>
  C7, as the spec states it, has a cancel between the two queries of a fetch affect the
  query not yet issued only. In the run below the named query of a node is issued and
  answered, then \<open>cancel\<close> runs, then the fetch resumes with the indexed query. The
  handle of the named query (token source 0) ends revoked; the indexed query carries the
  handle of token source 1, which is live, and is answered normally.
\<close>

theorem cancel_between_queries:
  "getNamedChildren exampleNode (listKernel [exampleResult 7 False 0] [exampleResult 9 False 0])
      constructor
     = (Inr [createVariableElement (exampleResult 7 False 0) exampleNotebook],
        \<lparr>cancellationTokenSource = 0,
         store = [\<lparr>cancelled = False, disposed = False\<rparr>],
         trace = [ProvideVariables ''notebook'' (Some 8) named 0
                    \<lparr>source_ref = 0, isCancellationRequested = False\<rparr>, Next, Next]\<rparr>)
   \<and> appendIndexedChildren 1 exampleNode
        (listKernel [exampleResult 7 False 0] [exampleResult 9 False 0])
        [createVariableElement (exampleResult 7 False 0) exampleNotebook]
        (cancel \<lparr>cancellationTokenSource = 0,
           store = [\<lparr>cancelled = False, disposed = False\<rparr>],
           trace = [ProvideVariables ''notebook'' (Some 8) named 0
                      \<lparr>source_ref = 0, isCancellationRequested = False\<rparr>, Next, Next]\<rparr>)
     = Some (Inr [createVariableElement (exampleResult 7 False 0) exampleNotebook,
                  createVariableElement (exampleResult 9 False 0) exampleNotebook],
        \<lparr>cancellationTokenSource = 1,
         store = [\<lparr>cancelled = True, disposed = True\<rparr>, \<lparr>cancelled = False, disposed = False\<rparr>],
         trace = [ProvideVariables ''notebook'' (Some 8) named 0
                    \<lparr>source_ref = 0, isCancellationRequested = False\<rparr>, Next, Next,
                  ProvideVariables ''notebook'' (Some 8) indexed 0
                    \<lparr>source_ref = 1, isCancellationRequested = False\<rparr>, Next]\<rparr>)
   \<and> cancelled ([\<lparr>cancelled = True, disposed = True\<rparr>, \<lparr>cancelled = False, disposed = False\<rparr>] ! 0)
   \<and> \<not> cancelled ([\<lparr>cancelled = True, disposed = True\<rparr>, \<lparr>cancelled = False, disposed = False\<rparr>] ! 1)"
  by (simp add: exampleNode_def listKernel_def exampleResult_def
      exampleNotebook_def createVariableElement_def
      getNamedChildren_def appendIndexedChildren_def getIndexedChildren_def
      constructor_def token_def cancel_def cancel_source_def dispose_source_def
      new_CancellationTokenSource_def Let_def)

text \<open>
  C7, amended. Every query carries the handle that is current when it is issued: the
  named query the token of the state \<open>w\<close> in which the fetch began, the indexed query the
  token of whatever state \<open>v\<close> the fetch resumes in. When \<open>cancel\<close> runs in between, the
  resumed state is \<open>cancel w1\<close>: the handle the named query carries is revoked, and the
  indexed query carries a different handle, which is not revoked.
\<close>

theorem query_carries_current_handle:
  assumes "cancellationTokenSource w < length (store w)"
    and "hasNamedChildren parent"
    and "0 < indexedChildrenCount parent" and "indexedChildrenCount parent \<le> P"
    and "getNamedChildren parent k w = (Inr children, w1)"
  shows "\<exists>p. w1 = w\<lparr>trace := trace w
            @ ProvideVariables (uri (notebook parent)) (Some (extHostId parent)) named 0 (token w)
            # replicate p Next\<rparr>
      \<and> (\<forall>v. \<exists>res q. appendIndexedChildren P parent k children v =
            Some (res, v\<lparr>trace := trace v
              @ ProvideVariables (uri (notebook parent)) (Some (extHostId parent)) indexed
                  (case indexStart parent of None \<Rightarrow> 0 | Some i \<Rightarrow> i) (token v)
              # replicate q Next\<rparr>))
      \<and> token w1 = token w
      \<and> source_ref (token w) = cancellationTokenSource w
      \<and> source_ref (token (cancel w1)) = cancellationTokenSource (cancel w1)
      \<and> source_ref (token (cancel w1)) \<noteq> source_ref (token w)
      \<and> cancelled (store (cancel w1) ! source_ref (token w))
      \<and> \<not> cancelled (store (cancel w1) ! source_ref (token (cancel w1)))
      \<and> \<not> isCancellationRequested (token (cancel w1))"
proof -
  let ?vs = "provideVariables k (uri (notebook parent)) (Some (extHostId parent)) named 0 (token w)"
  let ?p = "Suc (length (emitted ?vs))"
  let ?st = "case indexStart parent of None \<Rightarrow> 0 | Some i \<Rightarrow> i"
  have w1: "w1 = w\<lparr>trace := trace w
            @ ProvideVariables (uri (notebook parent)) (Some (extHostId parent)) named 0 (token w)
            # replicate ?p Next\<rparr>"
    using assms(2,5) by (simp add: getNamedChildren_closed)
  have st: "store w1 = store w" and ct: "cancellationTokenSource w1 = cancellationTokenSource w"
    by (simp_all add: w1)
  have ix: "\<forall>v. \<exists>res q. appendIndexedChildren P parent k children v =
            Some (res, v\<lparr>trace := trace v
              @ ProvideVariables (uri (notebook parent)) (Some (extHostId parent)) indexed
                  ?st (token v)
              # replicate q Next\<rparr>)"
  proof
    fix v
    from getIndexedChildren_direct [OF assms(3,4), where k = k and w = v]
    obtain r0 q where all: "getIndexedChildren P parent k v =
        Some (r0, v\<lparr>trace := trace v
           @ ProvideVariables (uri (notebook parent)) (Some (extHostId parent)) indexed
               ?st (token v)
           # replicate q Next\<rparr>)
      \<and> q \<le> nat P
      \<and> q \<le> Suc (length (emitted (provideVariables k (uri (notebook parent))
               (Some (extHostId parent)) indexed ?st (token v))))
      \<and> (\<forall>cs. r0 = Inr cs \<longrightarrow>
          cs = map (\<lambda>v. createVariableElement v (notebook parent))
                 (take (nat P) (emitted (provideVariables k (uri (notebook parent))
                    (Some (extHostId parent)) indexed ?st (token v)))))
      \<and> (rejection (provideVariables k (uri (notebook parent))
               (Some (extHostId parent)) indexed ?st (token v)) = None
         \<longrightarrow> (\<exists>cs. r0 = Inr cs))"
      by (elim exE)
    from all have g: "getIndexedChildren P parent k v =
        Some (r0, v\<lparr>trace := trace v
           @ ProvideVariables (uri (notebook parent)) (Some (extHostId parent)) indexed
               ?st (token v)
           # replicate q Next\<rparr>)"
      by (rule conjunct1)
    note a = appendIndexedChildren_cases [OF g assms(3), of children]
    show "\<exists>res q. appendIndexedChildren P parent k children v =
            Some (res, v\<lparr>trace := trace v
              @ ProvideVariables (uri (notebook parent)) (Some (extHostId parent)) indexed
                  ?st (token v)
              # replicate q Next\<rparr>)"
      by (rule exI, rule exI, rule a)
  qed
  have tk: "token w1 = token w" by (simp add: w1)
  have a: "source_ref (token w) = cancellationTokenSource w" by (simp add: token_def)
  have b: "source_ref (token (cancel w1)) = cancellationTokenSource (cancel w1)"
    by (simp add: token_def)
  have c: "source_ref (token (cancel w1)) \<noteq> source_ref (token w)"
    using assms(1) by (simp add: token_def cancel_fields st)
  have lt: "cancellationTokenSource w < length (store w1)" using assms(1) st by simp
  have d: "cancelled (store (cancel w1) ! source_ref (token w))"
    using cancel_old [OF lt] by (simp add: a ct dispose_source_def cancel_source_def)
  have e: "\<not> cancelled (store (cancel w1) ! source_ref (token (cancel w1)))"
    by (simp add: token_cancel cancel_fields new_CancellationTokenSource_def)
  have f: "\<not> isCancellationRequested (token (cancel w1))"
    by (simp add: token_cancel)
  show ?thesis
    by (rule exI [of _ ?p]) (intro conjI w1 ix tk a b c d e f)
qed

theorem query_carries_current_handle_witness:
  "cancellationTokenSource constructor < length (store constructor)
   \<and> hasNamedChildren exampleNode
   \<and> 0 < indexedChildrenCount exampleNode \<and> indexedChildrenCount exampleNode \<le> 1
   \<and> getNamedChildren exampleNode (listKernel [exampleResult 7 False 0] [exampleResult 9 False 0]) constructor
       = (Inr [createVariableElement (exampleResult 7 False 0) exampleNotebook],
          (constructor\<lparr>trace := [ProvideVariables ''notebook'' (Some 8) named 0 (token constructor), Next, Next]\<rparr>))
   \<and> (\<exists>p. (constructor\<lparr>trace := [ProvideVariables ''notebook'' (Some 8) named 0 (token constructor), Next, Next]\<rparr>) = constructor\<lparr>trace := trace constructor
            @ ProvideVariables (uri (notebook exampleNode)) (Some (extHostId exampleNode)) named 0 (token constructor)
            # replicate p Next\<rparr>
      \<and> (\<forall>v. \<exists>res q. appendIndexedChildren 1 exampleNode (listKernel [exampleResult 7 False 0] [exampleResult 9 False 0]) [createVariableElement (exampleResult 7 False 0) exampleNotebook] v =
            Some (res, v\<lparr>trace := trace v
              @ ProvideVariables (uri (notebook exampleNode)) (Some (extHostId exampleNode)) indexed
                  (case indexStart exampleNode of None \<Rightarrow> 0 | Some i \<Rightarrow> i) (token v)
              # replicate q Next\<rparr>))
      \<and> token (constructor\<lparr>trace := [ProvideVariables ''notebook'' (Some 8) named 0 (token constructor), Next, Next]\<rparr>) = token constructor
      \<and> source_ref (token constructor) = cancellationTokenSource constructor
      \<and> source_ref (token (cancel (constructor\<lparr>trace := [ProvideVariables ''notebook'' (Some 8) named 0 (token constructor), Next, Next]\<rparr>))) = cancellationTokenSource (cancel (constructor\<lparr>trace := [ProvideVariables ''notebook'' (Some 8) named 0 (token constructor), Next, Next]\<rparr>))
      \<and> source_ref (token (cancel (constructor\<lparr>trace := [ProvideVariables ''notebook'' (Some 8) named 0 (token constructor), Next, Next]\<rparr>))) \<noteq> source_ref (token constructor)
      \<and> cancelled (store (cancel (constructor\<lparr>trace := [ProvideVariables ''notebook'' (Some 8) named 0 (token constructor), Next, Next]\<rparr>)) ! source_ref (token constructor))
      \<and> \<not> cancelled (store (cancel (constructor\<lparr>trace := [ProvideVariables ''notebook'' (Some 8) named 0 (token constructor), Next, Next]\<rparr>)) ! source_ref (token (cancel (constructor\<lparr>trace := [ProvideVariables ''notebook'' (Some 8) named 0 (token constructor), Next, Next]\<rparr>))))
      \<and> \<not> isCancellationRequested (token (cancel (constructor\<lparr>trace := [ProvideVariables ''notebook'' (Some 8) named 0 (token constructor), Next, Next]\<rparr>))))"
proof -
  have h1: "cancellationTokenSource constructor < length (store constructor)"
    by (simp add: constructor_def)
  have h2: "hasNamedChildren exampleNode"
    by (simp add: exampleNode_def createVariableElement_def exampleResult_def)
  have h3: "0 < indexedChildrenCount exampleNode"
    by (simp add: exampleNode_def createVariableElement_def exampleResult_def)
  have h4: "indexedChildrenCount exampleNode \<le> 1"
    by (simp add: exampleNode_def createVariableElement_def exampleResult_def)
  have h5: "getNamedChildren exampleNode (listKernel [exampleResult 7 False 0] [exampleResult 9 False 0]) constructor
       = (Inr [createVariableElement (exampleResult 7 False 0) exampleNotebook],
          (constructor\<lparr>trace := [ProvideVariables ''notebook'' (Some 8) named 0 (token constructor), Next, Next]\<rparr>))"
    by (simp add: getNamedChildren_def exampleNode_def createVariableElement_def exampleResult_def
        listKernel_def exampleNotebook_def constructor_def token_def
        new_CancellationTokenSource_def Let_def)
  note c = query_carries_current_handle
      [where w = constructor and parent = exampleNode and P = 1
         and k = "listKernel [exampleResult 7 False 0] [exampleResult 9 False 0]",
       OF h1 h2 h3 h4 h5]
  show ?thesis
    by (intro conjI) (rule h1 h2 h3 h4 h5 c)+
qed

end
